theory Spec2Isabelle
  imports Complex_Main
begin

section \<open>The timeline planner of \<open>generate_montage\<close> (src/app.py)\<close>

text \<open>
  \<open>generate_montage\<close> walks over the clips in order, computes for each one the local
  window \<open>[local_start, local_end]\<close> to cut out of it and the offset at which the cut
  is placed on the final timeline, and finally takes the longer of the composite video
  and the song as the duration of the result.

  Times are Python floats, that is IEEE 754 double precision numbers, and are modelled as
  such: a sum or difference is rounded to the nearest double, ties to even, with
  subnormals, overflow to an infinity and NaN. The sign of zero, which no comparison
  and no sum here can observe, is not modelled.
  The media objects are reduced to the scalars the planner reads from them: a clip file
  to its \<open>duration\<close>, the song to its duration.
\<close>

subsection \<open>Python floats\<close>

text \<open>A float is a finite number, an infinity or NaN. A finite double is a real of the
  form \<open>m * 2 ^ e\<close> with \<open>\<bar>m\<bar> < 2 ^ 53\<close> and \<open>- 1074 \<le> e \<le> 971\<close>; the arithmetic
  below produces only such reals.\<close>

datatype pyfloat = Finite real | PInf | NInf | NaN

text \<open>The number of binary digits of a positive integer.\<close>

function bit_length :: "int \<Rightarrow> int" where
  "bit_length n = (if n \<le> 0 then 0 else 1 + bit_length (n div 2))"
  by pat_completeness auto
termination
  by (relation "measure nat") auto

declare bit_length.simps [simp del]

text \<open>The binary exponent of a positive real: the \<open>k\<close> with \<open>2 ^ k \<le> x < 2 ^ (k + 1)\<close>.\<close>

definition floor_log2 :: "real \<Rightarrow> int" where
  "floor_log2 x =
     (if 1 \<le> x then bit_length \<lfloor>x\<rfloor> - 1
      else - bit_length (\<lceil>1 / x\<rceil> - 1))"

text \<open>The nearest integer, the even one of the two when they are equally near.\<close>

definition round_half_even :: "real \<Rightarrow> int" where
  "round_half_even x =
     (let f = \<lfloor>x\<rfloor>; r = x - of_int f
      in if r < 1 / 2 then f
         else if 1 / 2 < r then f + 1
         else if even f then f else f + 1)"

text \<open>Rounding a real result to a double: 53 significant bits, no bit below
  \<open>2 ^ - 1074\<close>, and an infinity from \<open>2 ^ 1024\<close> on.\<close>

definition round_double :: "real \<Rightarrow> pyfloat" where
  "round_double x =
     (if x = 0 then Finite 0
      else
        let e = max (floor_log2 \<bar>x\<bar> - 52) (- 1074);
            v = of_int (round_half_even (x / 2 powi e)) * 2 powi e
        in if 2 powi 1024 \<le> \<bar>v\<bar> then (if 0 < x then PInf else NInf) else Finite v)"

text \<open>\<open>a + b\<close> and \<open>a - b\<close> on floats.\<close>

fun fadd :: "pyfloat \<Rightarrow> pyfloat \<Rightarrow> pyfloat" where
  "fadd (Finite x) (Finite y) = round_double (x + y)"
| "fadd NaN _ = NaN"
| "fadd _ NaN = NaN"
| "fadd PInf NInf = NaN"
| "fadd NInf PInf = NaN"
| "fadd PInf _ = PInf"
| "fadd _ PInf = PInf"
| "fadd NInf _ = NInf"
| "fadd _ NInf = NInf"

fun fsub :: "pyfloat \<Rightarrow> pyfloat \<Rightarrow> pyfloat" where
  "fsub (Finite x) (Finite y) = round_double (x - y)"
| "fsub NaN _ = NaN"
| "fsub _ NaN = NaN"
| "fsub PInf PInf = NaN"
| "fsub NInf NInf = NaN"
| "fsub PInf _ = PInf"
| "fsub _ PInf = NInf"
| "fsub NInf _ = NInf"
| "fsub _ NInf = PInf"

text \<open>\<open>a < b\<close> and \<open>a <= b\<close> on floats; \<open>a > b\<close> is \<open>flt b a\<close> and \<open>a >= b\<close> is
  \<open>fle b a\<close>. Every comparison with NaN is false.\<close>

fun flt :: "pyfloat \<Rightarrow> pyfloat \<Rightarrow> bool" where
  "flt (Finite x) (Finite y) \<longleftrightarrow> x < y"
| "flt NaN _ \<longleftrightarrow> False"
| "flt _ NaN \<longleftrightarrow> False"
| "flt _ NInf \<longleftrightarrow> False"
| "flt NInf _ \<longleftrightarrow> True"
| "flt PInf _ \<longleftrightarrow> False"
| "flt _ PInf \<longleftrightarrow> True"

fun fle :: "pyfloat \<Rightarrow> pyfloat \<Rightarrow> bool" where
  "fle (Finite x) (Finite y) \<longleftrightarrow> x \<le> y"
| "fle NaN _ \<longleftrightarrow> False"
| "fle _ NaN \<longleftrightarrow> False"
| "fle NInf _ \<longleftrightarrow> True"
| "fle _ NInf \<longleftrightarrow> False"
| "fle _ PInf \<longleftrightarrow> True"
| "fle PInf _ \<longleftrightarrow> False"

text \<open>Python's \<open>max(a, b)\<close> and \<open>min(a, b)\<close>: the first argument, unless the second
  is strictly greater (strictly smaller).\<close>

definition py_max :: "pyfloat \<Rightarrow> pyfloat \<Rightarrow> pyfloat" where
  "py_max a b = (if flt a b then b else a)"

definition py_min :: "pyfloat \<Rightarrow> pyfloat \<Rightarrow> pyfloat" where
  "py_min a b = (if flt b a then b else a)"

subsection \<open>Data\<close>

text \<open>One element of \<open>clips_info\<close>, together with the duration of the file it names
  (\<open>VideoFileClip(clip_path).duration\<close>).\<close>

record clip_data =
  kill_time :: pyfloat
  duration :: pyfloat

text \<open>A placed subclip: \<open>clip.subclipped(local_start, local_end).with_start(time_offset)\<close>
  of the clip at position \<open>source_index\<close> of \<open>clips_info\<close>.\<close>

record subclip =
  source_index :: nat
  local_start :: pyfloat
  local_end :: pyfloat
  time_offset :: pyfloat

text \<open>The variables that live across iterations of the loop. \<open>previous_kill_final_time\<close>
  starts as Python's \<open>None\<close>.\<close>

record loop_state =
  previous_kill_final_time :: "pyfloat option"
  placed_clips :: "subclip list"

text \<open>The exceptions the planner can run into: \<open>beat_drops[i]\<close> out of range, and
  \<open>None + 1\<close>. \<open>EmptyComposite\<close> stands for the failure of the compositing step on an
  empty list of subclips.\<close>

datatype error = IndexError | TypeError | EmptyComposite

definition initial_state :: loop_state where
  "initial_state = \<lparr>previous_kill_final_time = None, placed_clips = []\<rparr>"

subsection \<open>One iteration of the loop\<close>

text \<open>The local start before clamping: \<open>0\<close> for the first clip, otherwise the start
  that puts the subclip one second after the previous kill while pinning this kill to
  \<open>beat_time\<close>. Reading \<open>previous_kill_final_time\<close> while it is still \<open>None\<close> raises.\<close>

definition raw_local_start ::
  "nat \<Rightarrow> pyfloat \<Rightarrow> pyfloat \<Rightarrow> pyfloat option \<Rightarrow> error + pyfloat" where
  "raw_local_start i kill beat_time prev =
     (if i = 0 then Inr (Finite 0)
      else case prev of
             None \<Rightarrow> Inl TypeError
           | Some p \<Rightarrow>
               let final_start_of_this_clip = fadd p (Finite 1)
               in Inr (fsub kill (fsub beat_time final_start_of_this_clip)))"

text \<open>\<open>x = max(0, x); x = min(x, clip.duration)\<close>.\<close>

definition clamp_local :: "pyfloat \<Rightarrow> pyfloat \<Rightarrow> pyfloat" where
  "clamp_local x d = py_min (py_max (Finite 0) x) d"

text \<open>The body of the \<open>for\<close> loop at index \<open>i\<close>. The \<open>continue\<close> of the source leaves
  the state as it was.\<close>

definition loop_body ::
  "nat \<Rightarrow> clip_data \<Rightarrow> pyfloat list \<Rightarrow> loop_state \<Rightarrow> error + loop_state" where
  "loop_body i c beat_drops st =
     (if length beat_drops \<le> i then Inl IndexError
      else
        let kill = kill_time c;
            beat_time = beat_drops ! i;
            raw_end = fadd kill (Finite 1)
        in case raw_local_start i kill beat_time (previous_kill_final_time st) of
             Inl e \<Rightarrow> Inl e
           | Inr raw_start \<Rightarrow>
               let ls = clamp_local raw_start (duration c);
                   le = clamp_local raw_end (duration c)
               in if fle le ls then Inr st
                  else
                    let kill_time_in_subclip = fsub kill ls;
                        offset = fsub beat_time kill_time_in_subclip
                    in Inr \<lparr>previous_kill_final_time = Some beat_time,
                            placed_clips = placed_clips st @
                              [\<lparr>source_index = i, local_start = ls, local_end = le,
                                time_offset = offset\<rparr>]\<rparr>)"

subsection \<open>The loop\<close>

text \<open>\<open>for i, clip_data in enumerate(clips_info)\<close>, from index \<open>i\<close> on. An exception
  ends the loop.\<close>

fun loop_from ::
  "nat \<Rightarrow> clip_data list \<Rightarrow> pyfloat list \<Rightarrow> loop_state \<Rightarrow> error + loop_state" where
  "loop_from i [] beat_drops st = Inr st"
| "loop_from i (c # cs) beat_drops st =
     (case loop_body i c beat_drops st of
        Inl e \<Rightarrow> Inl e
      | Inr st' \<Rightarrow> loop_from (Suc i) cs beat_drops st')"

subsection \<open>The composite and the final duration\<close>

text \<open>Where a placed subclip ends on the final timeline.\<close>

definition subclip_end :: "subclip \<Rightarrow> pyfloat" where
  "subclip_end s = fadd (time_offset s) (fsub (local_end s) (local_start s))"

text \<open>Modelled from the spec: \<open>CompositeVideoClip(placed_clips).duration\<close> belongs to the
  video library, not to the repository. The spec gives it as the maximum over the
  placed segments of \<open>offset + (trim_end - trim_start)\<close>, which needs at least one
  segment; the empty list is the failure \<open>EmptyComposite\<close>. The maximum is Python's
  \<open>max\<close> over the list of ends.\<close>

fun composite_duration :: "subclip list \<Rightarrow> error + pyfloat" where
  "composite_duration [] = Inl EmptyComposite"
| "composite_duration (s # ss) =
     Inr (fold (\<lambda>x m. py_max m (subclip_end x)) ss (subclip_end s))"

text \<open>The planner as a whole: the placed subclips and \<open>final_duration\<close>. The arguments
  are \<open>clips_info\<close>, \<open>beat_drops\<close> and the duration of the song at \<open>song_path\<close>.\<close>

definition generate_montage ::
  "clip_data list \<Rightarrow> pyfloat list \<Rightarrow> pyfloat \<Rightarrow> error + (subclip list \<times> pyfloat)" where
  "generate_montage clips_info beat_drops audio_duration =
     (case loop_from 0 clips_info beat_drops initial_state of
        Inl e \<Rightarrow> Inl e
      | Inr st \<Rightarrow>
          (case composite_duration (placed_clips st) of
             Inl e \<Rightarrow> Inl e
           | Inr video_duration \<Rightarrow>
               Inr (placed_clips st, py_max video_duration audio_duration)))"

text \<open>The preconditions the specification puts on the clips: a positive duration and
  a kill time inside the clip, as Python compares them.\<close>

definition clip_ok :: "clip_data \<Rightarrow> bool" where
  "clip_ok c \<longleftrightarrow>
     flt (Finite 0) (duration c) \<and> fle (Finite 0) (kill_time c) \<and>
     fle (kill_time c) (duration c)"

definition preconditions :: "clip_data list \<Rightarrow> pyfloat list \<Rightarrow> bool" where
  "preconditions clips_info beat_drops \<longleftrightarrow>
     length clips_info = length beat_drops \<and> clips_info \<noteq> [] \<and> list_all clip_ok clips_info"

subsection \<open>Invariants of the loop\<close>

text \<open>What the loop guarantees of every subclip it places: its index is one of the
  clips and of the beat drops, its offset is the beat drop minus the distance of the
  kill from the start of the window, in float arithmetic, and its window is non-empty
  and, when the duration of the clip is a number, inside the clip.\<close>

definition entry_ok :: "clip_data list \<Rightarrow> pyfloat list \<Rightarrow> subclip \<Rightarrow> bool" where
  "entry_ok clips_info beat_drops s \<longleftrightarrow>
     source_index s < length clips_info \<and> source_index s < length beat_drops \<and>
     time_offset s =
       fsub (beat_drops ! source_index s)
         (fsub (kill_time (clips_info ! source_index s)) (local_start s)) \<and>
     flt (local_start s) (local_end s) \<and>
     (duration (clips_info ! source_index s) \<noteq> NaN \<longrightarrow>
        fle (Finite 0) (local_start s) \<and>
        fle (local_end s) (duration (clips_info ! source_index s)))"

text \<open>What holds of the state after any number of iterations: the placed subclips are in
  the order of their clips, and \<open>previous_kill_final_time\<close> is the beat drop of the last
  subclip placed (and still \<open>None\<close> while nothing is placed).\<close>

definition state_inv :: "clip_data list \<Rightarrow> pyfloat list \<Rightarrow> loop_state \<Rightarrow> bool" where
  "state_inv clips_info beat_drops st \<longleftrightarrow>
     (\<forall>s \<in> set (placed_clips st). entry_ok clips_info beat_drops s) \<and>
     sorted_wrt (<) (map source_index (placed_clips st)) \<and>
     previous_kill_final_time st =
       (if placed_clips st = [] then None
        else Some (beat_drops ! source_index (last (placed_clips st))))"

section \<open>Properties\<close>

subsection \<open>Rounding\<close>

lemma bit_length_nonpos: "n \<le> 0 \<Longrightarrow> bit_length n = 0"
  by (simp add: bit_length.simps)

lemma bit_length_pos: "0 < n \<Longrightarrow> bit_length n = 1 + bit_length (n div 2)"
  by (subst bit_length.simps) simp

lemma bit_length_nonneg: "0 \<le> bit_length n"
  by (induction n rule: bit_length.induct) (subst bit_length.simps, simp)

lemma bit_length_bounds:
  "0 < n \<Longrightarrow> 2 ^ nat (bit_length n - 1) \<le> n \<and> n < 2 ^ nat (bit_length n)"
proof (induction n rule: bit_length.induct)
  case (1 n)
  show ?case
  proof (cases "n div 2 \<le> 0")
    case True
    with "1.prems" have "n = 1" by linarith
    then show ?thesis by (simp add: bit_length_pos bit_length_nonpos)
  next
    case False
    let ?b = "bit_length (n div 2)"
    from False have pos: "0 < n div 2" by simp
    with "1.IH" "1.prems" have ih: "2 ^ nat (?b - 1) \<le> n div 2" "n div 2 < 2 ^ nat ?b"
      by auto
    have b1: "1 \<le> ?b"
      using pos bit_length_nonneg [of "n div 2 div 2"] by (simp add: bit_length_pos)
    have eq: "bit_length n = 1 + ?b"
      using "1.prems" by (rule bit_length_pos)
    have n1: "nat (1 + ?b - 1) = Suc (nat (?b - 1))" "nat (1 + ?b) = Suc (nat ?b)"
      using b1 by auto
    have n2: "nat ?b = Suc (nat (?b - 1))"
      using b1 by auto
    have "(2::int) ^ nat ?b = 2 * 2 ^ nat (?b - 1)"
      by (subst n2) simp
    then have "2 ^ nat ?b \<le> n" using ih(1) by linarith
    moreover have "n < 2 * 2 ^ nat ?b" using ih(2) by linarith
    ultimately show ?thesis
      by (simp add: eq n1)
  qed
qed

lemma floor_log2_bounds:
  assumes "0 < x"
  shows "2 powi floor_log2 x \<le> x" and "x < 2 powi (floor_log2 x + 1)"
proof -
  show "2 powi floor_log2 x \<le> x"
  proof (cases "1 \<le> x")
    case True
    then have n: "0 < \<lfloor>x\<rfloor>" by linarith
    let ?b = "bit_length \<lfloor>x\<rfloor>"
    from bit_length_bounds [OF n] have lo: "2 ^ nat (?b - 1) \<le> \<lfloor>x\<rfloor>" by simp
    have b: "0 \<le> ?b - 1"
      using n bit_length_nonneg [of "\<lfloor>x\<rfloor> div 2"] by (simp add: bit_length_pos)
    have "(2::real) ^ nat (?b - 1) \<le> of_int \<lfloor>x\<rfloor>"
      using lo by (metis of_int_le_iff of_int_numeral of_int_power)
    also have "\<dots> \<le> x" by simp
    finally show ?thesis
      using True b by (simp add: floor_log2_def power_int_def)
  next
    case False
    with assms have y: "1 < 1 / x" by simp
    let ?m = "\<lceil>1 / x\<rceil> - 1"
    let ?b = "bit_length ?m"
    from y have m: "0 < ?m" by linarith
    from bit_length_bounds [OF m] have hi: "?m < 2 ^ nat ?b" by simp
    then have "\<lceil>1 / x\<rceil> \<le> 2 ^ nat ?b" by linarith
    then have "of_int \<lceil>1 / x\<rceil> \<le> (2::real) ^ nat ?b"
      by (metis of_int_le_iff of_int_numeral of_int_power)
    moreover have "1 / x \<le> of_int \<lceil>1 / x\<rceil>" by simp
    ultimately have "1 / x \<le> 2 ^ nat ?b" by linarith
    then have le: "1 / 2 ^ nat ?b \<le> x"
      using assms by (simp add: field_simps)
    have b1: "1 \<le> ?b"
      using m bit_length_nonneg [of "?m div 2"] by (simp add: bit_length_pos)
    have "2 powi (- ?b) = 1 / (2::real) ^ nat ?b"
      using b1 by (simp add: power_int_def inverse_eq_divide power_inverse [symmetric] divide_simps)
    with le show ?thesis
      using False by (simp add: floor_log2_def)
  qed
  show "x < 2 powi (floor_log2 x + 1)"
  proof (cases "1 \<le> x")
    case True
    then have n: "0 < \<lfloor>x\<rfloor>" by linarith
    let ?b = "bit_length \<lfloor>x\<rfloor>"
    from bit_length_bounds [OF n] have "\<lfloor>x\<rfloor> < 2 ^ nat ?b" by simp
    then have "\<lfloor>x\<rfloor> + 1 \<le> 2 ^ nat ?b" by linarith
    then have "of_int (\<lfloor>x\<rfloor> + 1) \<le> (2::real) ^ nat ?b"
      by (metis of_int_le_iff of_int_numeral of_int_power)
    moreover have "x < of_int (\<lfloor>x\<rfloor> + 1)" by linarith
    ultimately have "x < 2 ^ nat ?b" by linarith
    then show ?thesis
      using True bit_length_nonneg [of "\<lfloor>x\<rfloor>"] by (simp add: floor_log2_def power_int_def)
  next
    case False
    with assms have y: "1 < 1 / x" by simp
    let ?m = "\<lceil>1 / x\<rceil> - 1"
    let ?b = "bit_length ?m"
    from y have m: "0 < ?m" by linarith
    from bit_length_bounds [OF m] have lo: "2 ^ nat (?b - 1) \<le> ?m" by simp
    have b1: "1 \<le> ?b"
      using m bit_length_nonneg [of "?m div 2"] by (simp add: bit_length_pos)
    have "(2::real) ^ nat (?b - 1) \<le> of_int ?m"
      using lo by (metis of_int_le_iff of_int_numeral of_int_power)
    moreover have "of_int ?m < 1 / x" by linarith
    ultimately have "2 ^ nat (?b - 1) < 1 / x" by linarith
    then have lt: "x < 1 / 2 ^ nat (?b - 1)"
      using assms by (simp add: field_simps)
    have "2 powi (- ?b + 1) = 1 / (2::real) ^ nat (?b - 1)"
      using b1 by (simp add: power_int_def inverse_eq_divide power_inverse [symmetric] divide_simps)
    with lt show ?thesis
      using False by (simp add: floor_log2_def)
  qed
qed

lemma floor_log2_unique:
  assumes "2 powi k \<le> x" "x < 2 powi (k + 1)"
  shows "floor_log2 x = k"
proof -
  have pos: "0 < x"
    using assms(1) by (smt (verit) zero_less_power_int)
  from floor_log2_bounds [OF pos] have
    b: "2 powi floor_log2 x \<le> x" "x < 2 powi (floor_log2 x + 1)" .
  have lt: "m < n" if "(2::real) powi m < 2 powi n" for m n :: int
  proof (rule ccontr)
    assume "\<not> m < n"
    then have "(2::real) powi n \<le> 2 powi m"
      by (intro power_int_increasing) auto
    with that show False by simp
  qed
  have "(2::real) powi k < 2 powi (floor_log2 x + 1)" using assms(1) b(2) by linarith
  then have "k < floor_log2 x + 1" by (rule lt)
  moreover have "(2::real) powi floor_log2 x < 2 powi (k + 1)" using assms(2) b(1) by linarith
  then have "floor_log2 x < k + 1" by (rule lt)
  ultimately show ?thesis by linarith
qed

lemma round_half_even_of_int: "round_half_even (of_int m) = m"
  by (simp add: round_half_even_def)

lemma round_half_even_error: "\<bar>of_int (round_half_even y) - y\<bar> \<le> 1 / 2"
proof -
  have "of_int \<lfloor>y\<rfloor> \<le> y" "y < of_int \<lfloor>y\<rfloor> + 1" by linarith+
  then show ?thesis
    by (auto simp: round_half_even_def Let_def)
qed

lemma round_double_at:
  assumes "x \<noteq> 0" "2 powi k \<le> \<bar>x\<bar>" "\<bar>x\<bar> < 2 powi (k + 1)"
  shows "round_double x =
           (let e = max (k - 52) (- 1074);
                v = of_int (round_half_even (x / 2 powi e)) * 2 powi e
            in if 2 powi 1024 \<le> \<bar>v\<bar> then (if 0 < x then PInf else NInf) else Finite v)"
  using assms(1) floor_log2_unique [OF assms(2,3)] by (simp add: round_double_def)

lemma round_double_not_NaN: "round_double x \<noteq> NaN"
  by (simp add: round_double_def Let_def)

lemma two_powi_less_power: "(2::real) powi a < 2 powi b \<Longrightarrow> a < b"
proof (rule ccontr)
  assume "(2::real) powi a < 2 powi b" "\<not> a < b"
  then have "(2::real) powi b \<le> 2 powi a"
    by (intro power_int_increasing) auto
  with \<open>2 powi a < 2 powi b\<close> show False by simp
qed

lemma round_double_exact:
  assumes x: "x = of_int m * 2 powi e" and m: "\<bar>m\<bar> < 2 ^ 53" and e: "- 1074 \<le> e" "e \<le> 971"
  shows "round_double x = Finite x"
proof (cases "x = 0")
  case True
  then show ?thesis by (simp add: round_double_def)
next
  case False
  let ?k = "floor_log2 \<bar>x\<bar>"
  let ?e = "max (?k - 52) (- 1074)"
  from False have pos: "0 < \<bar>x\<bar>" by simp
  have "\<bar>of_int m :: real\<bar> < 2 ^ 53"
    using m by (metis of_int_abs of_int_less_iff of_int_numeral of_int_power)
  then have "\<bar>x\<bar> < 2 ^ 53 * 2 powi e"
    by (simp add: x abs_mult)
  also have "\<dots> = 2 powi (53 + e)"
    by (simp add: power_int_add)
  finally have ub: "\<bar>x\<bar> < 2 powi (53 + e)" .
  have "2 powi ?k \<le> \<bar>x\<bar>" using floor_log2_bounds(1) [OF pos] .
  with ub have "(2::real) powi ?k < 2 powi (53 + e)" by linarith
  then have "?k < 53 + e" by (rule two_powi_less_power)
  with e have le: "?e \<le> e" by simp
  define d where "d = nat (e - ?e)"
  define P :: real where "P = 2 powi ?e"
  have P: "0 < P" by (simp add: P_def)
  have de: "e = ?e + int d" using le by (simp add: d_def)
  have "(2::real) powi e = 2 powi (?e + int d)"
    using de by simp
  also have "\<dots> = 2 powi ?e * 2 ^ d"
    by (simp add: power_int_add)
  also have "\<dots> = P * 2 ^ d"
    by (simp only: P_def)
  finally have xP: "x = of_int (m * 2 ^ d) * P"
    by (simp add: x)
  then have xq: "x / P = of_int (m * 2 ^ d)"
    using P by simp
  have "of_int (round_half_even (x / P)) * P = x"
    by (simp only: xq round_half_even_of_int xP [symmetric])
  then have v: "of_int (round_half_even (x / 2 powi ?e)) * 2 powi ?e = x"
    by (simp only: P_def)
  have "\<bar>x\<bar> < 2 powi 1024"
  proof -
    have "(2::real) powi (53 + e) \<le> 2 powi 1024"
      using e by (intro power_int_increasing) auto
    with ub show ?thesis by linarith
  qed
  with v False show ?thesis
    by (simp add: round_double_def Let_def)
qed

lemma round_double_half_integer:
  assumes "2 * x \<in> \<int>" "\<bar>x\<bar> < 2 ^ 52"
  shows "round_double x = Finite x"
proof -
  from assms(1) obtain n :: int where n: "2 * x = of_int n"
    by (auto elim: Ints_cases)
  have p: "(2::real) powi (- 1) = 1 / 2"
    by (simp add: power_int_minus)
  have x: "x = of_int n * 2 powi (- 1)"
    using n by (simp add: p)
  have "\<bar>of_int n :: real\<bar> < 2 ^ 53"
    using assms(2) n [symmetric] by simp
  then have "\<bar>n\<bar> < 2 ^ 53"
    by (metis of_int_abs of_int_less_iff of_int_numeral of_int_power)
  from round_double_exact [OF x this] show ?thesis by simp
qed

lemma round_double_positive:
  assumes "1 \<le> x"
  shows "flt (Finite 0) (round_double x)"
proof -
  let ?k = "floor_log2 \<bar>x\<bar>"
  let ?e = "max (?k - 52) (- 1074)"
  from assms have pos: "0 < \<bar>x\<bar>" and ax: "\<bar>x\<bar> = x" by auto
  have "2 powi ?k \<le> x" using floor_log2_bounds(1) [OF pos] ax by simp
  moreover have "(2::real) powi (?k - 52) \<le> 2 powi ?k"
    by (intro power_int_increasing) auto
  moreover have "(2::real) powi (- 1074) \<le> 2 powi 0"
    by (intro power_int_increasing) auto
  ultimately have "2 powi ?e \<le> x"
    using assms by (auto simp: max_def)
  then have "1 \<le> x / 2 powi ?e"
    by (simp add: field_simps)
  then have "1 / 2 < x / 2 powi ?e" by linarith
  with round_half_even_error [of "x / 2 powi ?e"]
  have "0 < (of_int (round_half_even (x / 2 powi ?e)) :: real)" by linarith
  then have "0 < of_int (round_half_even (x / 2 powi ?e)) * (2::real) powi ?e"
    by (simp add: zero_less_mult_iff)
  with assms show ?thesis
    by (simp add: round_double_def Let_def)
qed

lemma round_double_error:
  assumes "round_double x = Finite v"
  shows "\<bar>v - x\<bar> \<le> max (\<bar>x\<bar> / 2 ^ 53) (1 / 2 ^ 1075)"
proof (cases "x = 0")
  case True
  with assms show ?thesis by (simp add: round_double_def)
next
  case False
  let ?k = "floor_log2 \<bar>x\<bar>"
  let ?e = "max (?k - 52) (- 1074)"
  let ?m = "round_half_even (x / 2 powi ?e)"
  from False have pos: "0 < \<bar>x\<bar>" by simp
  from assms False have v: "v = of_int ?m * 2 powi ?e"
    by (simp add: round_double_def Let_def split: if_splits)
  have "v - x = (of_int ?m - x / 2 powi ?e) * 2 powi ?e"
    by (simp add: v field_simps)
  then have "\<bar>v - x\<bar> = \<bar>of_int ?m - x / 2 powi ?e\<bar> * 2 powi ?e"
    by (simp add: abs_mult)
  also have "\<dots> \<le> 1 / 2 * 2 powi ?e"
    by (intro mult_right_mono round_half_even_error) simp
  finally have err: "\<bar>v - x\<bar> \<le> 2 powi ?e / 2" by simp
  show ?thesis
  proof (cases "?k - 52 \<le> - 1074")
    case True
    then have "?e = - 1074" by simp
    then have "(2::real) powi ?e / 2 = 1 / 2 ^ 1075"
      by (simp add: power_int_minus_divide)
    with err show ?thesis by (simp add: max_def)
  next
    case False
    then have e: "?e = ?k - 52" by simp
    have "(2::real) powi ?e / 2 = 2 powi ?k / 2 ^ 53"
      by (simp add: e power_int_diff)
    also have "\<dots> \<le> \<bar>x\<bar> / 2 ^ 53"
      using floor_log2_bounds(1) [OF pos] by (simp add: divide_right_mono)
    finally show ?thesis using err by (simp add: max_def)
  qed
qed

subsection \<open>Comparisons, \<open>max\<close> and \<open>min\<close>\<close>

lemma clamp_local_not_NaN: "clamp_local x d \<noteq> NaN"
  by (cases x; cases d; simp add: clamp_local_def py_max_def py_min_def)

lemma not_fle_flt: "a \<noteq> NaN \<Longrightarrow> b \<noteq> NaN \<Longrightarrow> \<not> fle b a \<Longrightarrow> flt a b"
  by (cases a; cases b; simp)

lemma clamp_local_nonneg:
  assumes "\<not> fle (clamp_local y d) (clamp_local x d)" "d \<noteq> NaN"
  shows "fle (Finite 0) (clamp_local x d)"
  using assms
  by (cases x; cases y; cases d; simp add: clamp_local_def py_max_def py_min_def split: if_splits)

lemma clamp_local_le_duration:
  assumes "\<not> fle (clamp_local y d) (clamp_local x d)" "d \<noteq> NaN"
  shows "fle (clamp_local y d) d"
  using assms
  by (cases x; cases y; cases d; simp add: clamp_local_def py_max_def py_min_def split: if_splits)

lemma clamp_local_zero: "flt (Finite 0) d \<Longrightarrow> clamp_local (Finite 0) d = Finite 0"
  by (cases d; simp add: clamp_local_def py_max_def py_min_def)

lemma clamp_local_positive:
  "flt (Finite 0) y \<Longrightarrow> flt (Finite 0) d \<Longrightarrow> \<not> fle (clamp_local y d) (Finite 0)"
  by (cases y; cases d; simp add: clamp_local_def py_max_def py_min_def)

lemma fadd_one_positive:
  assumes "fle (Finite 0) k"
  shows "flt (Finite 0) (fadd k (Finite 1))"
proof (cases k)
  case (Finite x)
  with assms have "1 \<le> x + 1" by simp
  from round_double_positive [OF this] Finite show ?thesis by simp
qed (use assms in simp_all)

subsection \<open>The loop, one clip at a time\<close>

lemma loop_from_append:
  "loop_from i (xs @ ys) bd st =
     (case loop_from i xs bd st of
        Inl e \<Rightarrow> Inl e
      | Inr st' \<Rightarrow> loop_from (i + length xs) ys bd st')"
  by (induction xs arbitrary: i st) (auto split: sum.splits)

lemma loop_from_snoc:
  "loop_from 0 (xs @ [x]) bd st =
     (case loop_from 0 xs bd st of
        Inl e \<Rightarrow> Inl e
      | Inr st' \<Rightarrow> loop_body (length xs) x bd st')"
  by (simp add: loop_from_append split: sum.splits)

lemma loop_body_cases:
  assumes "loop_body i c bd st = Inr st'"
  shows "st' = st \<or>
         (\<exists>s. st' = \<lparr>previous_kill_final_time = Some (bd ! i),
                      placed_clips = placed_clips st @ [s]\<rparr> \<and>
              source_index s = i \<and> i < length bd \<and>
              time_offset s = fsub (bd ! i) (fsub (kill_time c) (local_start s)) \<and>
              flt (local_start s) (local_end s) \<and>
              (duration c \<noteq> NaN \<longrightarrow>
                 fle (Finite 0) (local_start s) \<and> fle (local_end s) (duration c)))"
  using assms
  by (auto simp: loop_body_def Let_def clamp_local_not_NaN not_fle_flt
      clamp_local_nonneg clamp_local_le_duration split: if_splits sum.splits)

lemma entry_ok_snoc: "entry_ok xs bd s \<Longrightarrow> entry_ok (xs @ [x]) bd s"
  by (simp add: entry_ok_def nth_append)

lemma state_inv_initial: "state_inv [] bd initial_state"
  by (simp add: state_inv_def initial_state_def)

lemma state_inv_step:
  assumes inv: "state_inv xs bd st" and step: "loop_body (length xs) x bd st = Inr st'"
  shows "state_inv (xs @ [x]) bd st'"
proof -
  from loop_body_cases [OF step] consider
    (skip) "st' = st"
  | (place) s where "st' = \<lparr>previous_kill_final_time = Some (bd ! length xs),
                            placed_clips = placed_clips st @ [s]\<rparr>"
      "source_index s = length xs" "length xs < length bd"
      "time_offset s = fsub (bd ! length xs) (fsub (kill_time x) (local_start s))"
      "flt (local_start s) (local_end s)"
      "duration x \<noteq> NaN \<longrightarrow>
         fle (Finite 0) (local_start s) \<and> fle (local_end s) (duration x)"
    by blast
  then show ?thesis
  proof cases
    case skip
    with inv show ?thesis
      by (auto simp: state_inv_def intro: entry_ok_snoc)
  next
    case place
    have new: "entry_ok (xs @ [x]) bd s"
      using place by (simp add: entry_ok_def)
    have old: "\<forall>t \<in> set (placed_clips st). entry_ok (xs @ [x]) bd t \<and> source_index t < length xs"
      using inv by (auto simp: state_inv_def entry_ok_def nth_append)
    have srt: "sorted_wrt (<) (map source_index (placed_clips st @ [s]))"
      using inv old place(2) by (simp add: state_inv_def sorted_wrt_append)
    show ?thesis
      using new old srt place(1,2) by (auto simp: state_inv_def)
  qed
qed

lemma loop_from_state_inv:
  "loop_from 0 clips_info bd initial_state = Inr st \<Longrightarrow> state_inv clips_info bd st"
proof (induction clips_info arbitrary: st rule: rev_induct)
  case Nil
  then show ?case by (simp add: state_inv_initial)
next
  case (snoc x xs)
  then show ?case
    by (auto simp: loop_from_snoc split: sum.splits intro: state_inv_step)
qed

subsection \<open>Who can raise\<close>

lemma loop_body_first:
  assumes "clip_ok c" "0 < length bd"
  shows "loop_body 0 c bd initial_state =
           Inr \<lparr>previous_kill_final_time = Some (bd ! 0),
                placed_clips = [\<lparr>source_index = 0, local_start = Finite 0,
                                 local_end = clamp_local (fadd (kill_time c) (Finite 1)) (duration c),
                                 time_offset = fsub (bd ! 0) (fsub (kill_time c) (Finite 0))\<rparr>]\<rparr>"
proof -
  from assms(1) have d: "flt (Finite 0) (duration c)" and k: "fle (Finite 0) (kill_time c)"
    by (simp_all add: clip_ok_def)
  have "\<not> fle (clamp_local (fadd (kill_time c) (Finite 1)) (duration c)) (Finite 0)"
    using fadd_one_positive [OF k] d by (rule clamp_local_positive)
  then show ?thesis
    using assms(2)
    by (simp add: loop_body_def raw_local_start_def initial_state_def clamp_local_zero [OF d] Let_def)
qed

lemma loop_body_defined:
  assumes "i < length bd" "previous_kill_final_time st = Some t"
  shows "\<exists>st' t' ys. loop_body i c bd st = Inr st' \<and> previous_kill_final_time st' = Some t' \<and>
           placed_clips st' = placed_clips st @ ys"
  using assms
  by (simp add: loop_body_def raw_local_start_def Let_def)

lemma loop_from_prefix_defined:
  assumes ok: "clip_ok (clips_info ! 0)" and len: "length clips_info \<le> length bd"
  shows "0 < n \<Longrightarrow> n \<le> length clips_info \<Longrightarrow>
         \<exists>st t. loop_from 0 (take n clips_info) bd initial_state = Inr st \<and>
                previous_kill_final_time st = Some t \<and>
                placed_clips st \<noteq> [] \<and> source_index (hd (placed_clips st)) = 0"
proof (induction n)
  case 0
  then show ?case by simp
next
  case (Suc n)
  show ?case
  proof (cases "n = 0")
    case True
    from Suc.prems len have "0 < length bd" "clips_info \<noteq> []" by auto
    then have "take (Suc n) clips_info = [clips_info ! 0]"
      using True by (cases clips_info) auto
    then show ?thesis
      using loop_body_first [OF ok \<open>0 < length bd\<close>] by simp
  next
    case False
    with Suc obtain st t where
      st: "loop_from 0 (take n clips_info) bd initial_state = Inr st"
        "previous_kill_final_time st = Some t"
        "placed_clips st \<noteq> []" "source_index (hd (placed_clips st)) = 0"
      by auto
    from Suc.prems len have n: "n < length bd" "n < length clips_info" by auto
    from loop_body_defined [OF n(1) st(2), of "clips_info ! n"] obtain st' t' ys where
      st': "loop_body n (clips_info ! n) bd st = Inr st'"
        "previous_kill_final_time st' = Some t'" "placed_clips st' = placed_clips st @ ys"
      by blast
    have "loop_from 0 (take (Suc n) clips_info) bd initial_state = Inr st'"
      using st(1) st'(1) n(2) by (simp add: take_Suc_conv_app_nth loop_from_snoc)
    then show ?thesis
      using st' st(3,4) by simp
  qed
qed

lemma composite_duration_defined:
  "ss \<noteq> [] \<Longrightarrow> \<exists>d. composite_duration ss = Inr d"
  by (cases ss) auto

lemma generate_montage_defined:
  assumes ok: "clip_ok (clips_info ! 0)" and len: "length clips_info \<le> length bd"
    and ne: "clips_info \<noteq> []"
  shows "\<exists>plans total. generate_montage clips_info bd audio = Inr (plans, total) \<and>
           plans \<noteq> [] \<and> source_index (hd plans) = 0"
proof -
  from ne have "0 < length clips_info" by simp
  from loop_from_prefix_defined [OF ok len this] obtain st where
    st: "loop_from 0 clips_info bd initial_state = Inr st" "placed_clips st \<noteq> []"
      "source_index (hd (placed_clips st)) = 0"
    by auto
  from composite_duration_defined [OF st(2)] obtain d where
    "composite_duration (placed_clips st) = Inr d" ..
  with st show ?thesis
    by (simp add: generate_montage_def)
qed

subsection \<open>From the result back to the loop\<close>

lemma generate_montage_Inr:
  assumes "generate_montage clips_info bd audio = Inr (plans, final_duration)"
  obtains st d where "loop_from 0 clips_info bd initial_state = Inr st"
    "plans = placed_clips st" "composite_duration plans = Inr d" "final_duration = py_max d audio"
  using assms by (auto simp: generate_montage_def split: sum.splits)

lemma generate_montage_entry_ok:
  assumes "generate_montage clips_info bd audio = Inr (plans, final_duration)" "s \<in> set plans"
  shows "entry_ok clips_info bd s"
proof -
  from assms(1) obtain st where
    "loop_from 0 clips_info bd initial_state = Inr st" "plans = placed_clips st"
    by (rule generate_montage_Inr)
  with loop_from_state_inv [of clips_info bd st] assms(2) show ?thesis
    by (simp add: state_inv_def)
qed

subsection \<open>Skipped clips\<close>

lemma sorted_wrt_less_last:
  fixes f :: "'a \<Rightarrow> nat"
  shows "sorted_wrt (<) (map f xs) \<Longrightarrow> x \<in> set xs \<Longrightarrow> f x \<le> f (last xs)"
proof (induction xs)
  case Nil
  then show ?case by simp
next
  case (Cons a xs)
  show ?case
  proof (cases "xs = []")
    case True
    with Cons.prems show ?thesis by simp
  next
    case False
    then have "last xs \<in> set xs" by simp
    with Cons.prems have first: "f a < f (last xs)" by simp
    from Cons.prems(2) consider "x = a" | "x \<in> set xs" by auto
    then show ?thesis
    proof cases
      case 1
      with first False show ?thesis by simp
    next
      case 2
      with Cons.IH Cons.prems(1) False show ?thesis by simp
    qed
  qed
qed

lemma loop_body_skip_reads_previous:
  assumes "loop_body i c bd st = Inr st'" "0 < i"
  shows "\<exists>t. previous_kill_final_time st = Some t"
  using assms
  by (auto simp: loop_body_def raw_local_start_def Let_def split: if_splits option.splits)

subsection \<open>Beat drops and clips of different lengths\<close>

lemma loop_body_errors:
  "loop_body i c bd st = Inl e \<Longrightarrow> e = IndexError \<or> e = TypeError"
  by (auto simp: loop_body_def raw_local_start_def Let_def split: if_splits option.splits)

lemma loop_from_errors:
  "loop_from i cs bd st = Inl e \<Longrightarrow> e = IndexError \<or> e = TypeError"
proof (induction cs arbitrary: i st)
  case Nil
  then show ?case by simp
next
  case (Cons c cs)
  then show ?case
    by (auto split: sum.splits dest: loop_body_errors)
qed

lemma loop_body_no_beat:
  "length bd \<le> i \<Longrightarrow> loop_body i c bd st = Inl IndexError"
  by (simp add: loop_body_def)

lemma loop_from_short:
  "i \<le> length bd \<Longrightarrow> length bd < i + length cs \<Longrightarrow> \<exists>e. loop_from i cs bd st = Inl e"
proof (induction cs arbitrary: i st)
  case Nil
  then show ?case by simp
next
  case (Cons c cs)
  show ?case
  proof (cases "length bd \<le> i")
    case True
    then show ?thesis by (simp add: loop_body_no_beat)
  next
    case False
    with Cons.prems have "Suc i \<le> length bd" "length bd < Suc i + length cs" by auto
    from Cons.IH [OF this] show ?thesis
      by (auto split: sum.splits)
  qed
qed

lemma loop_from_short_IndexError:
  "i \<le> length bd \<Longrightarrow> length bd < i + length cs \<Longrightarrow> previous_kill_final_time st = Some t \<Longrightarrow>
   loop_from i cs bd st = Inl IndexError"
proof (induction cs arbitrary: i st t)
  case Nil
  then show ?case by simp
next
  case (Cons c cs)
  show ?case
  proof (cases "length bd \<le> i")
    case True
    then show ?thesis by (simp add: loop_body_no_beat)
  next
    case False
    then have i: "i < length bd" by simp
    from loop_body_defined [OF i Cons.prems(3), of c] obtain st' t' where
      st': "loop_body i c bd st = Inr st'" "previous_kill_final_time st' = Some t'"
      by blast
    from Cons.prems i have "Suc i \<le> length bd" "length bd < Suc i + length cs" by auto
    from Cons.IH [OF this st'(2)] st'(1) show ?thesis by simp
  qed
qed

lemma loop_body_take:
  assumes "i < n"
  shows "loop_body i c (take n bd) st = loop_body i c bd st"
proof (cases "length bd \<le> i")
  case True
  then have "length (take n bd) \<le> i" by simp
  with True show ?thesis by (simp only: loop_body_no_beat)
next
  case False
  with assms have "\<not> length (take n bd) \<le> i" "take n bd ! i = bd ! i" by simp_all
  with False show ?thesis by (simp add: loop_body_def)
qed

lemma loop_from_take:
  "i + length cs \<le> n \<Longrightarrow> loop_from i cs (take n bd) st = loop_from i cs bd st"
proof (induction cs arbitrary: i st)
  case Nil
  then show ?case by simp
next
  case (Cons c cs)
  then have "i < n" "Suc i + length cs \<le> n" by auto
  with Cons.IH show ?case
    by (simp add: loop_body_take split: sum.splits)
qed

lemma generate_montage_short:
  assumes "length bd < length clips_info"
  shows "\<exists>e. generate_montage clips_info bd audio = Inl e \<and> (e = IndexError \<or> e = TypeError)"
proof -
  from loop_from_short [of 0 bd clips_info initial_state] assms obtain e where
    e: "loop_from 0 clips_info bd initial_state = Inl e"
    by auto
  from loop_from_errors [OF e] e show ?thesis
    by (simp add: generate_montage_def)
qed

lemma generate_montage_short_IndexError:
  assumes len: "length bd < length clips_info" and ok: "list_all clip_ok clips_info"
  shows "generate_montage clips_info bd audio = Inl IndexError"
proof -
  from len obtain c cs where clips: "clips_info = c # cs"
    by (cases clips_info) auto
  have "loop_from 0 (c # cs) bd initial_state = Inl IndexError"
  proof (cases "bd = []")
    case True
    then show ?thesis by (simp add: loop_body_no_beat)
  next
    case False
    then have pos: "0 < length bd" by simp
    from ok clips have c: "clip_ok c" by simp
    from False len clips have "Suc 0 \<le> length bd" "length bd < Suc 0 + length cs"
      by (auto simp: Suc_le_eq)
    from loop_from_short_IndexError [OF this] show ?thesis
      by (simp add: loop_body_first [OF c pos])
  qed
  with clips show ?thesis
    by (simp add: generate_montage_def)
qed

lemma generate_montage_take:
  assumes "length clips_info \<le> length bd"
  shows "generate_montage clips_info (take (length clips_info) bd) audio
           = generate_montage clips_info bd audio"
  using loop_from_take [of 0 clips_info "length clips_info" bd initial_state]
  by (simp add: generate_montage_def)

subsection \<open>The greatest of several floats\<close>

lemma fle_refl: "a \<noteq> NaN \<Longrightarrow> fle a a"
  by (cases a) simp_all

lemma fle_trans: "fle a b \<Longrightarrow> fle b c \<Longrightarrow> fle a c"
  by (cases a; cases b; cases c) simp_all

lemma py_max_cases: "py_max a b = a \<or> py_max a b = b"
  by (simp add: py_max_def)

lemma py_max_upper:
  assumes "a \<noteq> NaN" "b \<noteq> NaN"
  shows "fle a (py_max a b)" and "fle b (py_max a b)"
  using assms by (cases a; cases b; simp add: py_max_def)+

lemma fold_py_max_greatest:
  assumes "a \<noteq> NaN" "\<forall>x \<in> set xs. f x \<noteq> NaN"
  shows "fold (\<lambda>x m. py_max m (f x)) xs a \<in> insert a (f ` set xs) \<and>
         (\<forall>v \<in> insert a (f ` set xs). fle v (fold (\<lambda>x m. py_max m (f x)) xs a))"
  using assms
proof (induction xs arbitrary: a)
  case Nil
  then show ?case by (simp add: fle_refl)
next
  case (Cons x xs)
  let ?a = "py_max a (f x)"
  let ?r = "fold (\<lambda>x m. py_max m (f x)) xs ?a"
  from Cons.prems have fx: "f x \<noteq> NaN" and rest: "\<forall>y \<in> set xs. f y \<noteq> NaN" by simp_all
  have a': "?a \<noteq> NaN" using py_max_cases [of a "f x"] Cons.prems(1) fx by auto
  from Cons.IH [OF a' rest] have
    mem: "?r \<in> insert ?a (f ` set xs)" and ub: "\<forall>v \<in> insert ?a (f ` set xs). fle v ?r"
    by simp_all
  from ub have top: "fle ?a ?r" by simp
  have "fle a ?r"
    using py_max_upper(1) [OF Cons.prems(1) fx] top by (rule fle_trans)
  moreover have "fle (f x) ?r"
    using py_max_upper(2) [OF Cons.prems(1) fx] top by (rule fle_trans)
  moreover have "?r \<in> insert a (f ` set (x # xs))"
    using mem py_max_cases [of a "f x"] by auto
  ultimately show ?case using ub by simp
qed

lemma composite_duration_greatest:
  assumes "ss \<noteq> []" "\<forall>s \<in> set ss. subclip_end s \<noteq> NaN"
  shows "\<exists>d. composite_duration ss = Inr d \<and> d \<in> subclip_end ` set ss \<and>
           (\<forall>s \<in> set ss. fle (subclip_end s) d)"
proof -
  from assms(1) obtain s rest where ss: "ss = s # rest" by (cases ss) auto
  with assms(2) have "subclip_end s \<noteq> NaN" "\<forall>x \<in> set rest. subclip_end x \<noteq> NaN"
    by simp_all
  from fold_py_max_greatest [OF this] ss show ?thesis by simp
qed

subsection \<open>Ends that are numbers\<close>

text \<open>For clips whose kill times and durations are finite doubles and beat drops that are
  finite, no placed subclip ends at NaN: the length of a window inside a clip cannot
  overflow.\<close>

lemma round_half_even_le_int:
  assumes "y \<le> of_int n"
  shows "round_half_even y \<le> n"
proof (cases "\<lfloor>y\<rfloor> = n")
  case True
  then have "of_int n \<le> y" by (metis of_int_floor_le)
  with assms have "y = of_int n" by simp
  then show ?thesis by (simp add: round_half_even_of_int)
next
  case False
  from assms have "\<lfloor>y\<rfloor> \<le> n" by (simp add: floor_le_iff)
  with False have "\<lfloor>y\<rfloor> + 1 \<le> n" by simp
  then show ?thesis
    by (auto simp: round_half_even_def Let_def)
qed

lemma round_half_even_nonneg:
  assumes "0 \<le> y"
  shows "0 \<le> round_half_even y"
proof -
  from round_half_even_error [of y] assms have "- 1 < (of_int (round_half_even y) :: real)"
    by linarith
  then show ?thesis by linarith
qed

lemma floor_log2_mono:
  assumes "0 < x" "x \<le> y"
  shows "floor_log2 x \<le> floor_log2 y"
proof -
  from assms have y: "0 < y" by simp
  have "2 powi floor_log2 x \<le> x" using floor_log2_bounds(1) [OF assms(1)] .
  also have "x \<le> y" by fact
  also have "y < 2 powi (floor_log2 y + 1)" using floor_log2_bounds(2) [OF y] .
  finally have "floor_log2 x < floor_log2 y + 1" by (rule two_powi_less_power)
  then show ?thesis by simp
qed

lemma round_double_finite_below:
  assumes d: "round_double d = Finite d" and x: "0 < x" "x \<le> d"
  shows "\<exists>v. round_double x = Finite v"
proof -
  define P :: real where "P = 2 powi max (floor_log2 \<bar>x\<bar> - 52) (- 1074)"
  define Q :: real where "Q = 2 powi max (floor_log2 \<bar>d\<bar> - 52) (- 1074)"
  define m where "m = round_half_even (x / P)"
  define n where "n = round_half_even (d / Q)"
  from x have dpos: "0 < d" and ax: "\<bar>x\<bar> = x" and ad: "\<bar>d\<bar> = d" by simp_all
  have P: "0 < P" and Q: "0 < Q" by (simp_all add: P_def Q_def)
  from d dpos have dv: "of_int n * Q = d" and dlt: "d < 2 powi 1024"
    by (simp_all add: round_double_def Let_def ad n_def Q_def split: if_splits)
  have "max (floor_log2 \<bar>x\<bar> - 52) (- 1074) \<le> max (floor_log2 \<bar>d\<bar> - 52) (- 1074)"
    using floor_log2_mono [OF x] by (simp add: ax ad)
  then obtain k :: nat where
    k: "max (floor_log2 \<bar>d\<bar> - 52) (- 1074) = max (floor_log2 \<bar>x\<bar> - 52) (- 1074) + int k"
    by (metis zle_iff_zadd)
  have QP: "Q = P * 2 ^ k"
    unfolding Q_def P_def by (subst k) (simp add: power_int_add)
  have "d = of_int n * (P * 2 ^ k)"
    using dv QP by simp
  also have "\<dots> = of_int (n * 2 ^ k) * P"
    by simp
  finally have dP: "d = of_int (n * 2 ^ k) * P" .
  then have dq: "d / P = of_int (n * 2 ^ k)"
    using P by simp
  have "x / P \<le> d / P"
    using x(2) P by (simp add: divide_right_mono)
  with dq have "x / P \<le> of_int (n * 2 ^ k)" by simp
  then have "m \<le> n * 2 ^ k"
    unfolding m_def by (rule round_half_even_le_int)
  then have "(of_int m :: real) \<le> of_int (n * 2 ^ k)" by (simp only: of_int_le_iff)
  then have "of_int m * P \<le> of_int (n * 2 ^ k) * P"
    using P by (intro mult_right_mono) simp_all
  also have "\<dots> = d" using dP by simp
  finally have ub: "of_int m * P \<le> d" .
  have "0 \<le> m"
    unfolding m_def using x(1) P by (intro round_half_even_nonneg) simp
  then have "0 \<le> of_int m * P" using P by simp
  with ub dlt have "\<bar>of_int m * P\<bar> < 2 powi 1024" by linarith
  with x(1) show ?thesis
    by (simp add: round_double_def Let_def m_def P_def)
qed


lemma fsub_Finite_not_NaN: "y \<noteq> NaN \<Longrightarrow> fsub (Finite b) y \<noteq> NaN"
  by (cases y) (simp_all add: round_double_not_NaN)

lemma fadd_Finite_not_NaN: "x \<noteq> NaN \<Longrightarrow> fadd x (Finite v) \<noteq> NaN"
  by (cases x) (simp_all add: round_double_not_NaN)

lemma window_Finite:
  assumes "fle (Finite 0) ls" "flt ls le" "fle le (Finite d)"
  obtains l e where "ls = Finite l" "le = Finite e" "0 \<le> l" "l < e" "e \<le> d"
  using assms by (cases ls; cases le) simp_all

lemma placed_ends_not_NaN:
  assumes run: "loop_from 0 clips_info beat_drops initial_state = Inr st"
    and clips: "\<forall>c \<in> set clips_info.
        \<exists>k d. kill_time c = Finite k \<and> duration c = Finite d \<and> round_double d = Finite d"
    and beats: "\<forall>b \<in> set beat_drops. \<exists>x. b = Finite x"
  shows "\<forall>s \<in> set (placed_clips st). subclip_end s \<noteq> NaN"
proof
  fix s
  assume s: "s \<in> set (placed_clips st)"
  let ?c = "clips_info ! source_index s"
  from loop_from_state_inv [OF run] s have ok: "entry_ok clips_info beat_drops s"
    by (simp add: state_inv_def)
  then have i: "source_index s < length clips_info" "source_index s < length beat_drops"
    by (simp_all add: entry_ok_def)
  from i(1) clips obtain k d where
    c: "kill_time ?c = Finite k" "duration ?c = Finite d" "round_double d = Finite d"
    by (metis nth_mem)
  from i(2) beats obtain b where b: "beat_drops ! source_index s = Finite b"
    by (metis nth_mem)
  from ok c(2) have "fle (Finite 0) (local_start s)" "flt (local_start s) (local_end s)"
    "fle (local_end s) (Finite d)"
    by (simp_all add: entry_ok_def)
  then obtain l e where
    w: "local_start s = Finite l" "local_end s = Finite e" "0 \<le> l" "l < e" "e \<le> d"
    by (rule window_Finite)
  from w have "0 < e - l" "e - l \<le> d" by simp_all
  from round_double_finite_below [OF c(3) this] obtain v where
    v: "round_double (e - l) = Finite v" ..
  have "time_offset s = fsub (Finite b) (round_double (k - l))"
    using ok c(1) b w(1) by (simp add: entry_ok_def)
  then have "time_offset s \<noteq> NaN"
    by (simp add: fsub_Finite_not_NaN round_double_not_NaN)
  then show "subclip_end s \<noteq> NaN"
    by (simp add: subclip_end_def w v fadd_Finite_not_NaN)
qed

subsection \<open>Properties of the planner\<close>

lemmas planner_defs =
  generate_montage_def loop_body_def raw_local_start_def clamp_local_def
  initial_state_def subclip_end_def py_max_def py_min_def Let_def

text \<open>
  C6. For the clips \<open>{duration: 20, key_time: 13}\<close>, \<open>{duration: 15, key_time: 8}\<close> and
  the targets \<open>[8, 10.5]\<close> the plan has exactly two entries: clip 0 cut from 0 to 14 and
  placed at -5, clip 1 cut from 6.5 to 9 and placed at 9. (Every intermediate value is a
  multiple of one half, so nothing is rounded.)
\<close>

theorem scenario_two_clips:
  "generate_montage
      [\<lparr>kill_time = Finite 13, duration = Finite 20\<rparr>,
       \<lparr>kill_time = Finite 8, duration = Finite 15\<rparr>] [Finite 8, Finite 10.5] audio
    = Inr ([\<lparr>source_index = 0, local_start = Finite 0, local_end = Finite 14,
             time_offset = Finite (- 5)\<rparr>,
            \<lparr>source_index = 1, local_start = Finite 6.5, local_end = Finite 9,
             time_offset = Finite 9\<rparr>],
           py_max (Finite 11.5) audio)"
  by (simp add: planner_defs round_double_half_integer)

text \<open>
  C1, as stated: for every placed subclip
  \<open>time_offset + (kill_time - local_start) = beat_drops[i]\<close> holds exactly. In double
  arithmetic it does not. For one clip of 20 seconds with its kill at 5.3 and the beat drop
  1.1, that is the doubles \<open>5967269506265907 / 2 ^ 50\<close> and \<open>2476979795053773 / 2 ^ 51\<close>,
  the offset is \<open>1.1 - 5.3\<close> rounded, -4.199999999999999, and adding the 5.3 back gives
  1.1000000000000005, as a real number and as a float.
\<close>

theorem alignment_not_exact:
  "preconditions
     [\<lparr>kill_time = Finite (5967269506265907 / 2 ^ 50), duration = Finite 20\<rparr>]
     [Finite (2476979795053773 / 2 ^ 51)] \<and>
   generate_montage
     [\<lparr>kill_time = Finite (5967269506265907 / 2 ^ 50), duration = Finite 20\<rparr>]
     [Finite (2476979795053773 / 2 ^ 51)] (Finite 30)
     = Inr ([\<lparr>source_index = 0, local_start = Finite 0,
              local_end = Finite (7093169413108531 / 2 ^ 50),
              time_offset = Finite (- (1182194902184755 / 2 ^ 48))\<rparr>], Finite 30) \<and>
   - (1182194902184755 / 2 ^ 48) + (5967269506265907 / 2 ^ 50 - 0)
     \<noteq> (2476979795053773 / 2 ^ 51 :: real) \<and>
   fadd (Finite (- (1182194902184755 / 2 ^ 48)))
       (fsub (Finite (5967269506265907 / 2 ^ 50)) (Finite 0))
     = Finite (1238489897526887 / 2 ^ 50) \<and>
   Finite (1238489897526887 / 2 ^ 50) \<noteq> Finite (2476979795053773 / 2 ^ 51) \<and>
   round_double (5967269506265907 / 2 ^ 50) = Finite (5967269506265907 / 2 ^ 50) \<and>
   round_double (2476979795053773 / 2 ^ 51) = Finite (2476979795053773 / 2 ^ 51) \<and>
   round_double 20 = Finite 20"
proof -
  have r1: "round_double (7093169413108531 / 1125899906842624)
             = Finite (7093169413108531 / 1125899906842624)"
    by (simp add: round_double_at [of _ "2"] round_half_even_def)
  have r2: "round_double (5967269506265907 / 1125899906842624)
             = Finite (5967269506265907 / 1125899906842624)"
    by (simp add: round_double_at [of _ "2"] round_half_even_def)
  have r3: "round_double (- (9457559217478041 / 2251799813685248))
             = Finite (- (1182194902184755 / 281474976710656))"
    by (simp add: round_double_at [of _ "2"] round_half_even_def)
  have r4: "round_double (2364389804369511 / 1125899906842624)
             = Finite (2364389804369511 / 1125899906842624)"
    by (simp add: round_double_at [of _ "1"] round_half_even_def)
  have r5: "round_double (1238489897526887 / 1125899906842624)
             = Finite (1238489897526887 / 1125899906842624)"
    by (simp add: round_double_at [of _ "0"] round_half_even_def)
  have r6: "round_double (2476979795053773 / 2251799813685248)
             = Finite (2476979795053773 / 2251799813685248)"
    by (simp add: round_double_at [of _ "0"] round_half_even_def)
  show ?thesis
    by (simp add: planner_defs preconditions_def clip_ok_def round_double_half_integer
        r1 r2 r3 r4 r5 r6)
qed

text \<open>
  C1, amended. Under the preconditions, every placed subclip has
  \<open>time_offset = beat_drops[i] - (kill_time - local_start)\<close> as computed in double
  arithmetic, where \<open>local_start\<close> is the clamped start. When these are finite numbers,
  \<open>time_offset + (kill_time - local_start)\<close> differs from \<open>beat_drops[i]\<close> by no more than
  the rounding of the two subtractions, each at most \<open>2 ^ - 53\<close> of its exact result (or
  \<open>2 ^ - 1075\<close>), and equals it when neither subtraction is rounded.
\<close>

theorem alignment_up_to_rounding:
  assumes "preconditions clips_info beat_drops"
    and "generate_montage clips_info beat_drops audio = Inr (plans, final_duration)"
    and "s \<in> set plans"
  shows "source_index s < length clips_info \<and>
         time_offset s =
           fsub (beat_drops ! source_index s)
             (fsub (kill_time (clips_info ! source_index s)) (local_start s)) \<and>
         (\<forall>k l b d x.
            kill_time (clips_info ! source_index s) = Finite k \<and> local_start s = Finite l \<and>
            beat_drops ! source_index s = Finite b \<and>
            fsub (Finite k) (Finite l) = Finite d \<and> time_offset s = Finite x \<longrightarrow>
              \<bar>x + (k - l) - b\<bar>
                \<le> max (\<bar>k - l\<bar> / 2 ^ 53) (1 / 2 ^ 1075) + max (\<bar>b - d\<bar> / 2 ^ 53) (1 / 2 ^ 1075) \<and>
              (d = k - l \<and> round_double (b - d) = Finite (b - d) \<longrightarrow> x + (k - l) = b))"
proof -
  let ?c = "clips_info ! source_index s"
  let ?b = "beat_drops ! source_index s"
  from generate_montage_entry_ok [OF assms(2,3)] have ok: "entry_ok clips_info beat_drops s" .
  then have i: "source_index s < length clips_info"
    and off: "time_offset s = fsub ?b (fsub (kill_time ?c) (local_start s))"
    by (simp_all add: entry_ok_def)
  have "\<bar>x + (k - l) - b\<bar>
          \<le> max (\<bar>k - l\<bar> / 2 ^ 53) (1 / 2 ^ 1075) + max (\<bar>b - d\<bar> / 2 ^ 53) (1 / 2 ^ 1075) \<and>
        (d = k - l \<and> round_double (b - d) = Finite (b - d) \<longrightarrow> x + (k - l) = b)"
    if h: "kill_time ?c = Finite k" "local_start s = Finite l" "?b = Finite b"
      "fsub (Finite k) (Finite l) = Finite d" "time_offset s = Finite x"
    for k l b d x
  proof -
    from h(4) have d: "round_double (k - l) = Finite d" by simp
    from off h have x: "round_double (b - d) = Finite x" by simp
    from round_double_error [OF d] have e1: "\<bar>d - (k - l)\<bar> \<le> max (\<bar>k - l\<bar> / 2 ^ 53) (1 / 2 ^ 1075)" .
    from round_double_error [OF x] have e2: "\<bar>x - (b - d)\<bar> \<le> max (\<bar>b - d\<bar> / 2 ^ 53) (1 / 2 ^ 1075)" .
    have "x + (k - l) - b = (x - (b - d)) - (d - (k - l))" by simp
    then have "\<bar>x + (k - l) - b\<bar> \<le> \<bar>x - (b - d)\<bar> + \<bar>d - (k - l)\<bar>" by linarith
    with e1 e2 have bound: "\<bar>x + (k - l) - b\<bar>
          \<le> max (\<bar>k - l\<bar> / 2 ^ 53) (1 / 2 ^ 1075) + max (\<bar>b - d\<bar> / 2 ^ 53) (1 / 2 ^ 1075)"
      by linarith
    have "x + (k - l) = b" if "d = k - l" "round_double (b - d) = Finite (b - d)"
      using that x by simp
    with bound show ?thesis by blast
  qed
  with i off show ?thesis by blast
qed

text \<open>The two clips of the second scenario, with the second subclip: nothing is rounded
  there, and \<open>9 + (8 - 6.5) = 10.5\<close>.\<close>

theorem alignment_up_to_rounding_witness:
  "preconditions [\<lparr>kill_time = Finite 13, duration = Finite 20\<rparr>,
       \<lparr>kill_time = Finite 8, duration = Finite 15\<rparr>] [Finite 8, Finite 10.5] \<and>
   generate_montage [\<lparr>kill_time = Finite 13, duration = Finite 20\<rparr>,
       \<lparr>kill_time = Finite 8, duration = Finite 15\<rparr>] [Finite 8, Finite 10.5] (Finite 30)
     = Inr ([\<lparr>source_index = 0, local_start = Finite 0, local_end = Finite 14,
              time_offset = Finite (- 5)\<rparr>,
             \<lparr>source_index = 1, local_start = Finite 6.5, local_end = Finite 9,
              time_offset = Finite 9\<rparr>], Finite 30) \<and>
   Finite 9 = fsub (Finite 10.5) (fsub (Finite 8) (Finite 6.5)) \<and>
   fsub (Finite 8) (Finite 6.5) = Finite (8 - 6.5) \<and>
   round_double (10.5 - (8 - 6.5)) = Finite (10.5 - (8 - 6.5)) \<and>
   (9::real) + (8 - 6.5) = 10.5"
  using alignment_up_to_rounding
    [of "[\<lparr>kill_time = Finite 13, duration = Finite 20\<rparr>,
          \<lparr>kill_time = Finite 8, duration = Finite 15\<rparr>]" "[Finite 8, Finite 10.5]" "Finite 30"
        "[\<lparr>source_index = 0, local_start = Finite 0, local_end = Finite 14,
           time_offset = Finite (- 5)\<rparr>,
          \<lparr>source_index = 1, local_start = Finite 6.5, local_end = Finite 9,
           time_offset = Finite 9\<rparr>]" "Finite 30"
        "\<lparr>source_index = 1, local_start = Finite 6.5, local_end = Finite 9,
          time_offset = Finite 9\<rparr>"]
  by (simp add: planner_defs preconditions_def clip_ok_def round_double_half_integer)

text \<open>
  C3. Under the preconditions, every subclip that is placed is cut from a non-empty
  window inside its clip: \<open>0 \<le> local_start < local_end \<le> duration\<close>.
\<close>

theorem bounds_invariant:
  assumes "preconditions clips_info beat_drops"
    and "generate_montage clips_info beat_drops audio = Inr (plans, final_duration)"
    and "s \<in> set plans"
  shows "source_index s < length clips_info \<and>
         fle (Finite 0) (local_start s) \<and> flt (local_start s) (local_end s) \<and>
         fle (local_end s) (duration (clips_info ! source_index s))"
proof -
  from generate_montage_entry_ok [OF assms(2,3)] have ok: "entry_ok clips_info beat_drops s" .
  then have i: "source_index s < length clips_info" by (simp add: entry_ok_def)
  with assms(1) have "clip_ok (clips_info ! source_index s)"
    by (simp add: preconditions_def list_all_length)
  then have "duration (clips_info ! source_index s) \<noteq> NaN"
    by (auto simp: clip_ok_def)
  with ok show ?thesis by (simp add: entry_ok_def)
qed

text \<open>The same run, with the bounds of the second subclip.\<close>

theorem bounds_invariant_witness:
  "preconditions [\<lparr>kill_time = Finite 13, duration = Finite 20\<rparr>,
       \<lparr>kill_time = Finite 8, duration = Finite 15\<rparr>] [Finite 8, Finite 10.5] \<and>
   generate_montage [\<lparr>kill_time = Finite 13, duration = Finite 20\<rparr>,
       \<lparr>kill_time = Finite 8, duration = Finite 15\<rparr>] [Finite 8, Finite 10.5] (Finite 30)
     = Inr ([\<lparr>source_index = 0, local_start = Finite 0, local_end = Finite 14,
              time_offset = Finite (- 5)\<rparr>,
             \<lparr>source_index = 1, local_start = Finite 6.5, local_end = Finite 9,
              time_offset = Finite 9\<rparr>], Finite 30) \<and>
   fle (Finite 0) (Finite 6.5) \<and> flt (Finite 6.5) (Finite 9) \<and> fle (Finite 9) (Finite 15)"
  using bounds_invariant
    [of "[\<lparr>kill_time = Finite 13, duration = Finite 20\<rparr>,
          \<lparr>kill_time = Finite 8, duration = Finite 15\<rparr>]" "[Finite 8, Finite 10.5]" "Finite 30"
        "[\<lparr>source_index = 0, local_start = Finite 0, local_end = Finite 14,
           time_offset = Finite (- 5)\<rparr>,
          \<lparr>source_index = 1, local_start = Finite 6.5, local_end = Finite 9,
           time_offset = Finite 9\<rparr>]" "Finite 30"
        "\<lparr>source_index = 1, local_start = Finite 6.5, local_end = Finite 9,
          time_offset = Finite 9\<rparr>"]
  by (simp add: planner_defs preconditions_def clip_ok_def round_double_half_integer)

text \<open>
  C8. Under the preconditions (as many beat drops as clips, at least one clip, every
  clip with a positive duration and a kill time inside it) the planner raises nothing:
  it returns a plan whose first subclip is cut from clip 0, and after every non-empty
  prefix of the clips \<open>previous_kill_final_time\<close> holds a number, so no later clip
  reads \<open>None\<close>.
\<close>

theorem never_raises:
  assumes "preconditions clips_info beat_drops"
  shows "(\<exists>plans final_duration.
            generate_montage clips_info beat_drops audio = Inr (plans, final_duration) \<and>
            plans \<noteq> [] \<and> source_index (hd plans) = 0) \<and>
         (\<forall>n. 0 < n \<and> n \<le> length clips_info \<longrightarrow>
            (\<exists>st t. loop_from 0 (take n clips_info) beat_drops initial_state = Inr st \<and>
                     previous_kill_final_time st = Some t))"
proof -
  from assms have ok: "clip_ok (clips_info ! 0)" and len: "length clips_info \<le> length beat_drops"
    and ne: "clips_info \<noteq> []"
    by (auto simp: preconditions_def list_all_length)
  show ?thesis
    using generate_montage_defined [OF ok len ne, of audio]
      loop_from_prefix_defined [OF ok len]
    by blast
qed

text \<open>The preconditions hold of the two clips of the second scenario.\<close>

theorem never_raises_witness:
  "preconditions [\<lparr>kill_time = Finite 13, duration = Finite 20\<rparr>,
       \<lparr>kill_time = Finite 8, duration = Finite 15\<rparr>] [Finite 8, Finite 10.5] \<and>
   (\<exists>plans final_duration.
      generate_montage [\<lparr>kill_time = Finite 13, duration = Finite 20\<rparr>,
          \<lparr>kill_time = Finite 8, duration = Finite 15\<rparr>] [Finite 8, Finite 10.5] (Finite 30)
        = Inr (plans, final_duration) \<and> plans \<noteq> [] \<and> source_index (hd plans) = 0) \<and>
   (\<exists>st t.
      loop_from 0 (take 1 [\<lparr>kill_time = Finite 13, duration = Finite 20\<rparr>,
          \<lparr>kill_time = Finite 8, duration = Finite 15\<rparr>])
          [Finite 8, Finite 10.5] initial_state = Inr st \<and>
      previous_kill_final_time st = Some t)"
proof -
  have pre: "preconditions [\<lparr>kill_time = Finite 13, duration = Finite 20\<rparr>,
       \<lparr>kill_time = Finite 8, duration = Finite 15\<rparr>] [Finite 8, Finite 10.5]"
    by (simp add: preconditions_def clip_ok_def)
  have n: "0 < (1::nat) \<and>
           1 \<le> length [\<lparr>kill_time = Finite 13, duration = Finite 20\<rparr>,
                        \<lparr>kill_time = Finite 8, duration = Finite 15\<rparr>]"
    by simp
  from never_raises [OF pre, of "Finite 30"] pre n show ?thesis by blast
qed

text \<open>
  C7. When at least one subclip is placed, the planner returns the placed subclips and,
  as the final duration, the larger of the song's duration and the latest end
  \<open>time_offset + (local_end - local_start)\<close> over all placed subclips: one of these
  values, and not below any of them. Python's \<open>max\<close> is a maximum only among numbers,
  so none of them is to be NaN; none is when the clips and beat drops are finite doubles,
  by \<open>placed_ends_not_NaN\<close>.
\<close>

theorem final_duration_is_max:
  assumes "loop_from 0 clips_info beat_drops initial_state = Inr st"
    and "placed_clips st \<noteq> []"
    and "\<forall>s \<in> set (placed_clips st). subclip_end s \<noteq> NaN" and "audio \<noteq> NaN"
  shows "\<exists>final_duration.
           generate_montage clips_info beat_drops audio = Inr (placed_clips st, final_duration) \<and>
           final_duration \<in> insert audio (subclip_end ` set (placed_clips st)) \<and>
           (\<forall>v \<in> insert audio (subclip_end ` set (placed_clips st)). fle v final_duration)"
proof -
  from composite_duration_greatest [OF assms(2,3)] obtain d where
    d: "composite_duration (placed_clips st) = Inr d" "d \<in> subclip_end ` set (placed_clips st)"
      "\<forall>s \<in> set (placed_clips st). fle (subclip_end s) d"
    by blast
  from d(2) assms(3) have dn: "d \<noteq> NaN" by auto
  have run: "generate_montage clips_info beat_drops audio = Inr (placed_clips st, py_max d audio)"
    using assms(1) d(1) by (simp add: generate_montage_def)
  have mem: "py_max d audio \<in> insert audio (subclip_end ` set (placed_clips st))"
    using py_max_cases [of d audio] d(2) by auto
  have top: "fle d (py_max d audio)" "fle audio (py_max d audio)"
    using py_max_upper [OF dn assms(4)] by simp_all
  have "\<forall>s \<in> set (placed_clips st). fle (subclip_end s) (py_max d audio)"
    using d(3) top(1) by (blast intro: fle_trans)
  with run mem top(2) show ?thesis by auto
qed

text \<open>The second scenario under a song of 10 seconds: the subclips end at 9 and 11.5.\<close>

theorem final_duration_is_max_witness:
  "generate_montage [\<lparr>kill_time = Finite 13, duration = Finite 20\<rparr>,
       \<lparr>kill_time = Finite 8, duration = Finite 15\<rparr>] [Finite 8, Finite 10.5] (Finite 10)
     = Inr ([\<lparr>source_index = 0, local_start = Finite 0, local_end = Finite 14,
              time_offset = Finite (- 5)\<rparr>,
             \<lparr>source_index = 1, local_start = Finite 6.5, local_end = Finite 9,
              time_offset = Finite 9\<rparr>], Finite 11.5) \<and>
   fle (Finite 10) (Finite 11.5) \<and> fle (Finite 9) (Finite 11.5) \<and>
   fle (Finite 11.5) (Finite 11.5)"
proof -
  let ?st = "\<lparr>previous_kill_final_time = Some (Finite 10.5),
              placed_clips =
                [\<lparr>source_index = 0, local_start = Finite 0, local_end = Finite 14,
                  time_offset = Finite (- 5)\<rparr>,
                 \<lparr>source_index = 1, local_start = Finite 6.5, local_end = Finite 9,
                  time_offset = Finite 9\<rparr>]\<rparr>"
  have run: "loop_from 0 [\<lparr>kill_time = Finite 13, duration = Finite 20\<rparr>,
               \<lparr>kill_time = Finite 8, duration = Finite 15\<rparr>]
               [Finite 8, Finite 10.5] initial_state = Inr ?st"
    by (simp add: planner_defs round_double_half_integer)
  have ne: "placed_clips ?st \<noteq> []" by simp
  have ends: "\<forall>s \<in> set (placed_clips ?st). subclip_end s \<noteq> NaN"
    by (simp add: subclip_end_def round_double_half_integer)
  have audio: "Finite 10 \<noteq> NaN" by simp
  from final_duration_is_max [OF run ne ends audio] show ?thesis
    by (simp add: planner_defs round_double_half_integer)
qed

text \<open>
  C5, as stated: when nothing is clamped and the state is the beat drop of the clip
  before, the subclip starts exactly one second after that beat drop. In double arithmetic
  it does not. For two clips of 20 seconds with their kills at 0.5 and 8.6 and the beat
  drops 0.9 and 5.3, the second clip has the raw start 5.199999999999999, which is not
  clamped, and is placed at 1.8999999999999995, while \<open>0.9 + 1\<close> is 1.9 as a float and
  a little more as a real number.
\<close>

theorem one_second_not_exact:
  "preconditions
     [\<lparr>kill_time = Finite (1 / 2), duration = Finite 20\<rparr>,
      \<lparr>kill_time = Finite (4841369599423283 / 2 ^ 49), duration = Finite 20\<rparr>]
     [Finite (8106479329266893 / 2 ^ 53),
      Finite (5967269506265907 / 2 ^ 50)] \<and>
   loop_from 0 [\<lparr>kill_time = Finite (1 / 2), duration = Finite 20\<rparr>]
     [Finite (8106479329266893 / 2 ^ 53),
      Finite (5967269506265907 / 2 ^ 50)] initial_state
     = Inr \<lparr>previous_kill_final_time = Some (Finite (8106479329266893 / 2 ^ 53)),
            placed_clips =
              [\<lparr>source_index = 0, local_start = Finite 0, local_end = Finite (3 / 2),
              time_offset = Finite (3602879701896397 / 2 ^ 53)\<rparr>]\<rparr> \<and>
   raw_local_start 1 (Finite (4841369599423283 / 2 ^ 49))
       (Finite (5967269506265907 / 2 ^ 50))
       (Some (Finite (8106479329266893 / 2 ^ 53)))
     = Inr (Finite (1463669878895411 / 2 ^ 48)) \<and>
   clamp_local (Finite (1463669878895411 / 2 ^ 48)) (Finite 20)
     = Finite (1463669878895411 / 2 ^ 48) \<and>
   generate_montage
     [\<lparr>kill_time = Finite (1 / 2), duration = Finite 20\<rparr>,
      \<lparr>kill_time = Finite (4841369599423283 / 2 ^ 49), duration = Finite 20\<rparr>]
     [Finite (8106479329266893 / 2 ^ 53),
      Finite (5967269506265907 / 2 ^ 50)] (Finite 30)
     = Inr ([\<lparr>source_index = 0, local_start = Finite 0, local_end = Finite (3 / 2),
              time_offset = Finite (3602879701896397 / 2 ^ 53)\<rparr>,
             \<lparr>source_index = 1,
              local_start = Finite (1463669878895411 / 2 ^ 48),
              local_end = Finite (5404319552844595 / 2 ^ 49),
              time_offset = Finite (2139209823000985 / 2 ^ 50)\<rparr>], Finite 30) \<and>
   fadd (Finite (8106479329266893 / 2 ^ 53)) (Finite 1)
     = Finite (4278419646001971 / 2 ^ 51) \<and>
   Finite (2139209823000985 / 2 ^ 50)
     \<noteq> Finite (4278419646001971 / 2 ^ 51) \<and>
   (2139209823000985 / 2 ^ 50 :: real) \<noteq> 8106479329266893 / 2 ^ 53 + 1 \<and>
   round_double (4841369599423283 / 2 ^ 49) = Finite (4841369599423283 / 2 ^ 49) \<and>
   round_double (8106479329266893 / 2 ^ 53) = Finite (8106479329266893 / 2 ^ 53) \<and>
   round_double (5967269506265907 / 2 ^ 50) = Finite (5967269506265907 / 2 ^ 50) \<and>
   round_double (1 / 2) = Finite (1 / 2) \<and> round_double 20 = Finite 20"
proof -
  have r1: "round_double (3602879701896397 / 9007199254740992)
             = Finite (3602879701896397 / 9007199254740992)"
    by (simp add: round_double_at [of _ "- 2"] round_half_even_def)
  have r2: "round_double (5404319552844595 / 562949953421312)
             = Finite (5404319552844595 / 562949953421312)"
    by (simp add: round_double_at [of _ "3"] round_half_even_def)
  have r3: "round_double (17113678584007885 / 9007199254740992)
             = Finite (4278419646001971 / 2251799813685248)"
    by (simp add: round_double_at [of _ "0"] round_half_even_def)
  have r4: "round_double (7656119366529843 / 2251799813685248)
             = Finite (7656119366529843 / 2251799813685248)"
    by (simp add: round_double_at [of _ "1"] round_half_even_def)
  have r5: "round_double (11709359031163289 / 2251799813685248)
             = Finite (1463669878895411 / 281474976710656)"
    by (simp add: round_double_at [of _ "2"] round_half_even_def)
  have r6: "round_double (1914029841632461 / 562949953421312)
             = Finite (1914029841632461 / 562949953421312)"
    by (simp add: round_double_at [of _ "1"] round_half_even_def)
  have r7: "round_double (2139209823000985 / 1125899906842624)
             = Finite (2139209823000985 / 1125899906842624)"
    by (simp add: round_double_at [of _ "0"] round_half_even_def)
  have r8: "round_double (2476979795053773 / 562949953421312)
             = Finite (2476979795053773 / 562949953421312)"
    by (simp add: round_double_at [of _ "2"] round_half_even_def)
  have r9: "round_double (7093169413108531 / 1125899906842624)
             = Finite (7093169413108531 / 1125899906842624)"
    by (simp add: round_double_at [of _ "2"] round_half_even_def)
  have r10: "round_double (4841369599423283 / 562949953421312)
             = Finite (4841369599423283 / 562949953421312)"
    by (simp add: round_double_at [of _ "3"] round_half_even_def)
  have r11: "round_double (8106479329266893 / 9007199254740992)
             = Finite (8106479329266893 / 9007199254740992)"
    by (simp add: round_double_at [of _ "- 1"] round_half_even_def)
  have r12: "round_double (5967269506265907 / 1125899906842624)
             = Finite (5967269506265907 / 1125899906842624)"
    by (simp add: round_double_at [of _ "2"] round_half_even_def)
  show ?thesis
    by (simp add: planner_defs preconditions_def clip_ok_def round_double_half_integer
        r1 r2 r3 r4 r5 r6 r7 r8 r9 r10 r11 r12)
qed

text \<open>
  C5, amended. For a clip at an index \<open>i > 0\<close> the local start before clamping is
  \<open>kill_time - (beat_drops[i] - (previous_kill_final_time + 1))\<close> as computed in double
  arithmetic. When clamping leaves that start as it is, the state holds the beat drop of
  the clip before and the clip is placed, the subclip is placed at
  \<open>beat_drops[i] - (kill_time - local_start)\<close>, again in double arithmetic; that is
  exactly one second after that beat drop when the sum and the two differences that give
  the start are not rounded.
\<close>

theorem one_second_up_to_rounding:
  assumes "0 < i" and "previous_kill_final_time st = Some prev"
  shows "raw_local_start i (kill_time c) (beat_drops ! i) (previous_kill_final_time st)
           = Inr (fsub (kill_time c) (fsub (beat_drops ! i) (fadd prev (Finite 1)))) \<and>
         (clamp_local (fsub (kill_time c) (fsub (beat_drops ! i) (fadd prev (Finite 1))))
              (duration c)
            = fsub (kill_time c) (fsub (beat_drops ! i) (fadd prev (Finite 1))) \<and>
          prev = beat_drops ! (i - 1) \<and>
          loop_body i c beat_drops st = Inr st' \<and> st' \<noteq> st \<longrightarrow>
            placed_clips st' = placed_clips st @
              [\<lparr>source_index = i,
                local_start = fsub (kill_time c) (fsub (beat_drops ! i) (fadd prev (Finite 1))),
                local_end = clamp_local (fadd (kill_time c) (Finite 1)) (duration c),
                time_offset =
                  fsub (beat_drops ! i)
                    (fsub (kill_time c)
                       (fsub (kill_time c) (fsub (beat_drops ! i) (fadd prev (Finite 1)))))\<rparr>] \<and>
            (\<forall>p b k.
               prev = Finite p \<and> beat_drops ! i = Finite b \<and> kill_time c = Finite k \<and>
               round_double (p + 1) = Finite (p + 1) \<and>
               round_double (b - (p + 1)) = Finite (b - (p + 1)) \<and>
               round_double (k - (b - (p + 1))) = Finite (k - (b - (p + 1))) \<longrightarrow>
                 time_offset (last (placed_clips st')) = Finite (p + 1)))"
proof -
  let ?raw = "fsub (kill_time c) (fsub (beat_drops ! i) (fadd prev (Finite 1)))"
  let ?new = "\<lparr>source_index = i, local_start = ?raw,
                local_end = clamp_local (fadd (kill_time c) (Finite 1)) (duration c),
                time_offset = fsub (beat_drops ! i) (fsub (kill_time c) ?raw)\<rparr>"
  have raw: "raw_local_start i (kill_time c) (beat_drops ! i) (previous_kill_final_time st)
               = Inr ?raw"
    using assms by (simp add: raw_local_start_def)
  have "placed_clips st' = placed_clips st @ [?new] \<and>
        (\<forall>p b k.
           prev = Finite p \<and> beat_drops ! i = Finite b \<and> kill_time c = Finite k \<and>
           round_double (p + 1) = Finite (p + 1) \<and>
           round_double (b - (p + 1)) = Finite (b - (p + 1)) \<and>
           round_double (k - (b - (p + 1))) = Finite (k - (b - (p + 1))) \<longrightarrow>
             time_offset (last (placed_clips st')) = Finite (p + 1))"
    if noclamp: "clamp_local ?raw (duration c) = ?raw"
      and step: "loop_body i c beat_drops st = Inr st'" and placed: "st' \<noteq> st"
  proof -
    from step placed raw noclamp have new: "placed_clips st' = placed_clips st @ [?new]"
      by (auto simp: loop_body_def Let_def split: if_splits)
    have "time_offset (last (placed_clips st')) = Finite (p + 1)"
      if h: "prev = Finite p" "beat_drops ! i = Finite b" "kill_time c = Finite k"
        "round_double (p + 1) = Finite (p + 1)"
        "round_double (b - (p + 1)) = Finite (b - (p + 1))"
        "round_double (k - (b - (p + 1))) = Finite (k - (b - (p + 1)))"
      for p b k
    proof -
      have a1: "fadd prev (Finite 1) = Finite (p + 1)"
        using h(1,4) by simp
      have a2: "fsub (beat_drops ! i) (Finite (p + 1)) = Finite (b - (p + 1))"
        using h(2,5) by simp
      have a3: "fsub (kill_time c) (Finite (b - (p + 1))) = Finite (k - (b - (p + 1)))"
        using h(3,6) by simp
      have e4: "k - (k - (b - (p + 1))) = b - (p + 1)" and e5: "b - (b - (p + 1)) = p + 1"
        by simp_all
      have a4: "fsub (kill_time c) (Finite (k - (b - (p + 1)))) = Finite (b - (p + 1))"
        by (simp only: h(3) fsub.simps e4 h(5))
      have a5: "fsub (beat_drops ! i) (Finite (b - (p + 1))) = Finite (p + 1)"
        by (simp only: h(2) fsub.simps e5 h(4))
      have "time_offset (last (placed_clips st')) = fsub (beat_drops ! i) (fsub (kill_time c) ?raw)"
        unfolding new by simp
      also have "\<dots> = Finite (p + 1)"
        by (simp only: a1 a2 a3 a4 a5)
      finally show ?thesis .
    qed
    with new show ?thesis by blast
  qed
  with raw show ?thesis by blast
qed

text \<open>The second clip of the second scenario: nothing is rounded, and it starts at
  \<open>9 = 8 + 1\<close>.\<close>

theorem one_second_up_to_rounding_witness:
  "raw_local_start 1 (Finite 8) (Finite 10.5) (Some (Finite 8)) = Inr (Finite 6.5) \<and>
   clamp_local (Finite 6.5) (Finite 15) = Finite 6.5 \<and>
   loop_body 1 \<lparr>kill_time = Finite 8, duration = Finite 15\<rparr> [Finite 8, Finite 10.5]
      \<lparr>previous_kill_final_time = Some (Finite 8),
       placed_clips = [\<lparr>source_index = 0, local_start = Finite 0, local_end = Finite 14,
                        time_offset = Finite (- 5)\<rparr>]\<rparr>
    = Inr \<lparr>previous_kill_final_time = Some (Finite 10.5),
           placed_clips = [\<lparr>source_index = 0, local_start = Finite 0, local_end = Finite 14,
                            time_offset = Finite (- 5)\<rparr>,
                           \<lparr>source_index = 1, local_start = Finite 6.5, local_end = Finite 9,
                            time_offset = Finite 9\<rparr>]\<rparr> \<and>
   round_double (8 + 1) = Finite (8 + 1) \<and>
   round_double (10.5 - (8 + 1)) = Finite (10.5 - (8 + 1)) \<and>
   round_double (8 - (10.5 - (8 + 1))) = Finite (8 - (10.5 - (8 + 1))) \<and>
   Finite 9 = Finite (8 + 1)"
  using one_second_up_to_rounding
    [of 1 "\<lparr>previous_kill_final_time = Some (Finite 8),
       placed_clips = [\<lparr>source_index = 0, local_start = Finite 0, local_end = Finite 14,
                        time_offset = Finite (- 5)\<rparr>]\<rparr>"
      "Finite 8" "\<lparr>kill_time = Finite 8, duration = Finite 15\<rparr>" "[Finite 8, Finite 10.5]"
      "\<lparr>previous_kill_final_time = Some (Finite 10.5),
           placed_clips = [\<lparr>source_index = 0, local_start = Finite 0, local_end = Finite 14,
                            time_offset = Finite (- 5)\<rparr>,
                           \<lparr>source_index = 1, local_start = Finite 6.5, local_end = Finite 9,
                            time_offset = Finite 9\<rparr>]\<rparr>"]
  by (simp add: planner_defs round_double_half_integer)

text \<open>
  C9. When a clip at an index \<open>i > 0\<close> that is not the last one is skipped by the check
  \<open>local_start >= local_end\<close>, the state is left as it was: it is \<open>beat_drops[j]\<close>, where
  \<open>j < i\<close> is the index of the last clip that was placed, and the next clip computes its
  local start from \<open>beat_drops[j] + 1\<close> and not from \<open>beat_drops[i] + 1\<close>. (A skipped clip
  is one whose iteration returns the state unchanged; a placed clip always extends
  \<open>placed_clips\<close>.)
\<close>

theorem skip_keeps_last_placed_beat:
  assumes "loop_from 0 (take i clips_info) beat_drops initial_state = Inr st"
    and "0 < i" and "Suc i < length clips_info"
    and "loop_body i (clips_info ! i) beat_drops st = Inr st"
  shows "\<exists>j<i. placed_clips st \<noteq> [] \<and> source_index (last (placed_clips st)) = j \<and>
           (\<forall>s \<in> set (placed_clips st). source_index s \<le> j) \<and>
           loop_from 0 (take (Suc i) clips_info) beat_drops initial_state = Inr st \<and>
           previous_kill_final_time st = Some (beat_drops ! j) \<and>
           raw_local_start (Suc i) (kill_time (clips_info ! Suc i)) beat_time
               (previous_kill_final_time st)
             = Inr (fsub (kill_time (clips_info ! Suc i))
                     (fsub beat_time (fadd (beat_drops ! j) (Finite 1)))) \<and>
           (beat_drops ! j \<noteq> beat_drops ! i \<longrightarrow>
              previous_kill_final_time st \<noteq> Some (beat_drops ! i))"
proof -
  let ?j = "source_index (last (placed_clips st))"
  have inv: "state_inv (take i clips_info) beat_drops st"
    using assms(1) by (rule loop_from_state_inv)
  from loop_body_skip_reads_previous [OF assms(4,2)] obtain t where
    t: "previous_kill_final_time st = Some t" ..
  with inv have ne: "placed_clips st \<noteq> []" and prev: "t = beat_drops ! ?j"
    by (auto simp: state_inv_def split: if_splits)
  from ne have "last (placed_clips st) \<in> set (placed_clips st)" by simp
  with inv have "entry_ok (take i clips_info) beat_drops (last (placed_clips st))"
    by (simp add: state_inv_def)
  then have j: "?j < i" by (simp add: entry_ok_def)
  have le: "\<forall>s \<in> set (placed_clips st). source_index s \<le> ?j"
    using inv by (auto simp: state_inv_def intro: sorted_wrt_less_last)
  have run: "loop_from 0 (take (Suc i) clips_info) beat_drops initial_state = Inr st"
    using assms by (simp add: take_Suc_conv_app_nth loop_from_snoc)
  have raw: "raw_local_start (Suc i) (kill_time (clips_info ! Suc i)) beat_time
               (previous_kill_final_time st)
             = Inr (fsub (kill_time (clips_info ! Suc i))
                     (fsub beat_time (fadd (beat_drops ! ?j) (Finite 1))))"
    using t prev by (simp add: raw_local_start_def)
  from j ne le run raw t prev show ?thesis by auto
qed

text \<open>Three clips, the second of which collapses to an empty window: the third clip
  measures from the first beat drop, 8, and starts at 6; from the second, 8.5, it would
  start at 6.5.\<close>

theorem skip_keeps_last_placed_beat_witness:
  "loop_from 0 (take (Suc 0) [\<lparr>kill_time = Finite 13, duration = Finite 20\<rparr>,
       \<lparr>kill_time = Finite 0, duration = Finite 0.5\<rparr>,
       \<lparr>kill_time = Finite 8, duration = Finite 15\<rparr>]) [Finite 8, Finite 8.5, Finite 11]
       initial_state
     = Inr \<lparr>previous_kill_final_time = Some (Finite 8),
            placed_clips = [\<lparr>source_index = 0, local_start = Finite 0, local_end = Finite 14,
                             time_offset = Finite (- 5)\<rparr>]\<rparr> \<and>
   loop_body (Suc 0) \<lparr>kill_time = Finite 0, duration = Finite 0.5\<rparr>
       [Finite 8, Finite 8.5, Finite 11]
       \<lparr>previous_kill_final_time = Some (Finite 8),
        placed_clips = [\<lparr>source_index = 0, local_start = Finite 0, local_end = Finite 14,
                         time_offset = Finite (- 5)\<rparr>]\<rparr>
     = Inr \<lparr>previous_kill_final_time = Some (Finite 8),
            placed_clips = [\<lparr>source_index = 0, local_start = Finite 0, local_end = Finite 14,
                             time_offset = Finite (- 5)\<rparr>]\<rparr> \<and>
   raw_local_start (Suc (Suc 0)) (Finite 8) (Finite 11) (Some (Finite 8)) = Inr (Finite 6) \<and>
   raw_local_start (Suc (Suc 0)) (Finite 8) (Finite 11) (Some (Finite 8.5)) = Inr (Finite 6.5) \<and>
   Some (Finite 8) \<noteq> Some (Finite 8.5)"
  using skip_keeps_last_placed_beat
    [of "Suc 0" "[\<lparr>kill_time = Finite 13, duration = Finite 20\<rparr>,
       \<lparr>kill_time = Finite 0, duration = Finite 0.5\<rparr>,
       \<lparr>kill_time = Finite 8, duration = Finite 15\<rparr>]" "[Finite 8, Finite 8.5, Finite 11]"
       "\<lparr>previous_kill_final_time = Some (Finite 8),
        placed_clips = [\<lparr>source_index = 0, local_start = Finite 0, local_end = Finite 14,
                         time_offset = Finite (- 5)\<rparr>]\<rparr>"
       "Finite 11"]
  by (simp add: planner_defs round_double_half_integer)

text \<open>
  C10. There is an input satisfying the preconditions with a placed subclip whose
  clamped \<open>local_start\<close> lies after the clip's \<open>kill_time\<close>: the kill is then before the
  window that is cut out, the subclip is placed after its beat drop, and the equation
  \<open>time_offset + (kill_time - local_start) = beat_drops[i]\<close> holds all the same.
  The input is the two clips of the second scenario with beat drops 8 and 8.5: the second
  subclip is cut from 8.5 to 9 and placed at 9, its kill being at 8.
\<close>

theorem kill_before_window:
  "\<exists>clips_info beat_drops audio plans final_duration s.
     preconditions clips_info beat_drops \<and>
     generate_montage clips_info beat_drops audio = Inr (plans, final_duration) \<and>
     s \<in> set plans \<and>
     flt (kill_time (clips_info ! source_index s)) (local_start s) \<and>
     flt (beat_drops ! source_index s) (time_offset s) \<and>
     fadd (time_offset s) (fsub (kill_time (clips_info ! source_index s)) (local_start s))
       = beat_drops ! source_index s"
proof -
  let ?clips = "[\<lparr>kill_time = Finite 13, duration = Finite 20\<rparr>,
                 \<lparr>kill_time = Finite 8, duration = Finite 15\<rparr>]"
  let ?s = "\<lparr>source_index = 1, local_start = Finite 8.5, local_end = Finite 9,
             time_offset = Finite 9\<rparr>"
  let ?plans = "[\<lparr>source_index = 0, local_start = Finite 0, local_end = Finite 14,
                  time_offset = Finite (- 5)\<rparr>, ?s]"
  have pre: "preconditions ?clips [Finite 8, Finite 8.5]"
    by (simp add: preconditions_def clip_ok_def)
  have run: "generate_montage ?clips [Finite 8, Finite 8.5] (Finite 30) = Inr (?plans, Finite 30)"
    by (simp add: planner_defs round_double_half_integer)
  have "?s \<in> set ?plans \<and> flt (kill_time (?clips ! source_index ?s)) (local_start ?s) \<and>
        flt ([Finite 8, Finite 8.5] ! source_index ?s) (time_offset ?s) \<and>
        fadd (time_offset ?s) (fsub (kill_time (?clips ! source_index ?s)) (local_start ?s))
          = [Finite 8, Finite 8.5] ! source_index ?s"
    by (simp add: round_double_half_integer)
  with pre run show ?thesis by blast
qed


text \<open>
  C4, as stated: the planner fails whenever the numbers of clips and of beat drops differ.
  It does not: \<open>generate_montage\<close> checks nothing, and with two clips and three beat drops
  it returns the plan of the second scenario.
\<close>

theorem longer_beat_drops_accepted:
  "length [\<lparr>kill_time = Finite 13, duration = Finite 20\<rparr>,
           \<lparr>kill_time = Finite 8, duration = Finite 15\<rparr>]
     \<noteq> length [Finite 8, Finite 10.5, Finite 13] \<and>
   generate_montage [\<lparr>kill_time = Finite 13, duration = Finite 20\<rparr>,
       \<lparr>kill_time = Finite 8, duration = Finite 15\<rparr>]
       [Finite 8, Finite 10.5, Finite 13] (Finite 30)
     = Inr ([\<lparr>source_index = 0, local_start = Finite 0, local_end = Finite 14,
              time_offset = Finite (- 5)\<rparr>,
             \<lparr>source_index = 1, local_start = Finite 6.5, local_end = Finite 9,
              time_offset = Finite 9\<rparr>], Finite 30)"
  by (simp add: planner_defs round_double_half_integer)

text \<open>
  C4, amended. The planner has no validation of its own. With fewer beat drops than clips
  it fails without a plan, with \<open>IndexError\<close> or \<open>TypeError\<close>, and with \<open>IndexError\<close> when
  every clip has a positive duration and a kill time inside it. With at least as many
  beat drops as clips, the beat drops beyond the last clip are ignored, and for a
  non-empty list of such clips the planner returns a plan.
\<close>

theorem length_handling:
  "(length beat_drops < length clips_info \<longrightarrow>
      (\<exists>e. generate_montage clips_info beat_drops audio = Inl e \<and>
           (e = IndexError \<or> e = TypeError))) \<and>
   (length beat_drops < length clips_info \<and> list_all clip_ok clips_info \<longrightarrow>
      generate_montage clips_info beat_drops audio = Inl IndexError) \<and>
   (length clips_info \<le> length beat_drops \<longrightarrow>
      generate_montage clips_info (take (length clips_info) beat_drops) audio
        = generate_montage clips_info beat_drops audio \<and>
      (clips_info \<noteq> [] \<and> list_all clip_ok clips_info \<longrightarrow>
         (\<exists>plans final_duration.
            generate_montage clips_info beat_drops audio = Inr (plans, final_duration))))"
proof (intro conjI impI)
  assume "length beat_drops < length clips_info"
  then show "\<exists>e. generate_montage clips_info beat_drops audio = Inl e \<and>
           (e = IndexError \<or> e = TypeError)"
    by (rule generate_montage_short)
next
  assume "length beat_drops < length clips_info \<and> list_all clip_ok clips_info"
  then show "generate_montage clips_info beat_drops audio = Inl IndexError"
    by (simp add: generate_montage_short_IndexError)
next
  assume "length clips_info \<le> length beat_drops"
  then show "generate_montage clips_info (take (length clips_info) beat_drops) audio
        = generate_montage clips_info beat_drops audio"
    by (rule generate_montage_take)
next
  assume len: "length clips_info \<le> length beat_drops"
    and "clips_info \<noteq> [] \<and> list_all clip_ok clips_info"
  then have ne: "clips_info \<noteq> []" and ok: "clip_ok (clips_info ! 0)"
    by (auto simp: list_all_length)
  from generate_montage_defined [OF ok len ne, of audio]
  show "\<exists>plans final_duration.
            generate_montage clips_info beat_drops audio = Inr (plans, final_duration)"
    by blast
qed

text \<open>Two clips with one beat drop, and the same two clips with three.\<close>

theorem length_handling_witness:
  "length [Finite 8] < length [\<lparr>kill_time = Finite 13, duration = Finite 20\<rparr>,
       \<lparr>kill_time = Finite 8, duration = Finite 15\<rparr>] \<and>
   list_all clip_ok [\<lparr>kill_time = Finite 13, duration = Finite 20\<rparr>,
       \<lparr>kill_time = Finite 8, duration = Finite 15\<rparr>] \<and>
   generate_montage [\<lparr>kill_time = Finite 13, duration = Finite 20\<rparr>,
       \<lparr>kill_time = Finite 8, duration = Finite 15\<rparr>] [Finite 8] (Finite 30)
     = Inl IndexError \<and>
   length [\<lparr>kill_time = Finite 13, duration = Finite 20\<rparr>,
       \<lparr>kill_time = Finite 8, duration = Finite 15\<rparr>]
     \<le> length [Finite 8, Finite 10.5, Finite 13] \<and>
   generate_montage [\<lparr>kill_time = Finite 13, duration = Finite 20\<rparr>,
       \<lparr>kill_time = Finite 8, duration = Finite 15\<rparr>]
       (take 2 [Finite 8, Finite 10.5, Finite 13]) (Finite 30)
     = generate_montage [\<lparr>kill_time = Finite 13, duration = Finite 20\<rparr>,
         \<lparr>kill_time = Finite 8, duration = Finite 15\<rparr>]
         [Finite 8, Finite 10.5, Finite 13] (Finite 30) \<and>
   (\<exists>plans final_duration.
      generate_montage [\<lparr>kill_time = Finite 13, duration = Finite 20\<rparr>,
          \<lparr>kill_time = Finite 8, duration = Finite 15\<rparr>]
          [Finite 8, Finite 10.5, Finite 13] (Finite 30) = Inr (plans, final_duration))"
  using length_handling
      [of "[Finite 8]" "[\<lparr>kill_time = Finite 13, duration = Finite 20\<rparr>,
           \<lparr>kill_time = Finite 8, duration = Finite 15\<rparr>]" "Finite 30"]
    length_handling
      [of "[Finite 8, Finite 10.5, Finite 13]"
          "[\<lparr>kill_time = Finite 13, duration = Finite 20\<rparr>,
            \<lparr>kill_time = Finite 8, duration = Finite 15\<rparr>]" "Finite 30"]
  by (simp add: clip_ok_def)

end
